theory Spec2Isabelle
  imports Main "HOL-Library.Word"
begin

unbundle bit_operations_syntax

section \<open>The value model (object.cpp)\<close>

text \<open>
  Modelled from the spec: the header object.h, which declares \<^verbatim>\<open>Object\<close>, is not among
  the sources at hand. The value is "a closed tagged union over exactly these variants":
  \<^verbatim>\<open>String\<close> (owned text), \<^verbatim>\<open>Number\<close> (double-precision float), \<^verbatim>\<open>Boolean\<close>,
  \<^verbatim>\<open>Null\<close> and \<^verbatim>\<open>Callable\<close> (an opaque reference, compared by identity). object.cpp
  visits it as a \<^verbatim>\<open>std::variant\<close> whose alternatives are \<^verbatim>\<open>String\<close>, \<^verbatim>\<open>Number\<close>,
  \<^verbatim>\<open>Boolean\<close>, \<^verbatim>\<open>Null\<close> and \<^verbatim>\<open>CallPtr\<close>; the alternatives are listed here in the
  order the visitors name them.

  A \<^verbatim>\<open>double\<close> is kept as its IEEE-754 binary64 bit pattern: sign bit, eleven exponent
  bits, fifty-two fraction bits. Only the comparison \<^verbatim>\<open>==\<close> of two doubles is needed
  here, and it is a function of the two bit patterns.
\<close>

type_synonym double = "64 word"

definition isnan :: "double \<Rightarrow> bool" where
  "isnan d \<longleftrightarrow>
     (d AND 0x7FF0000000000000) = 0x7FF0000000000000 \<and> (d AND 0x000FFFFFFFFFFFFF) \<noteq> 0"

definition iszero :: "double \<Rightarrow> bool" where
  "iszero d \<longleftrightarrow> (d AND 0x7FFFFFFFFFFFFFFF) = 0"

text \<open>\<^verbatim>\<open>a == b\<close> on doubles: a NaN is equal to nothing, both zeros are equal to each
  other, and any other two values are equal when their bits are.\<close>

definition double_eq :: "double \<Rightarrow> double \<Rightarrow> bool" where
  "double_eq a b \<longleftrightarrow> \<not> isnan a \<and> \<not> isnan b \<and> (a = b \<or> (iszero a \<and> iszero b))"

datatype object =
    is_String: String (un_String: string)
  | is_Number: Number (un_Number: double)
  | is_Boolean: Boolean (un_Boolean: bool)
  | is_Null: Null
  | is_CallPtr: CallPtr (un_CallPtr: nat)

text \<open>\<^verbatim>\<open>std::variant::index()\<close>: which alternative a value holds.\<close>

fun index :: "object \<Rightarrow> nat" where
  "index (String _) = 0"
| "index (Number _) = 1"
| "index (Boolean _) = 2"
| "index Null = 3"
| "index (CallPtr _) = 4"

text \<open>\<^verbatim>\<open>operator==\<close> of \<^verbatim>\<open>std::variant\<close>: false when the two indices differ, and
  otherwise \<^verbatim>\<open>==\<close> of the two payloads.\<close>

fun variant_eq :: "object \<Rightarrow> object \<Rightarrow> bool" where
  "variant_eq (String x) (String y) \<longleftrightarrow> x = y"
| "variant_eq (Number x) (Number y) \<longleftrightarrow> double_eq x y"
| "variant_eq (Boolean x) (Boolean y) \<longleftrightarrow> x = y"
| "variant_eq Null Null \<longleftrightarrow> True"
| "variant_eq (CallPtr p) (CallPtr q) \<longleftrightarrow> p = q"
| "variant_eq _ _ \<longleftrightarrow> False"

datatype object_error = UnknownObjectType

text \<open>
  \<^verbatim>\<open>obj2str\<close> visits the variant with a chain of \<^verbatim>\<open>if constexpr\<close> tests on the type of
  the alternative; the last \<^verbatim>\<open>else\<close> throws \<^verbatim>\<open>std::runtime_error{"Unknown Object type"}\<close>.
  \<^verbatim>\<open>std::to_string\<close> on a double belongs to the C++ library and is a parameter here.
\<close>

definition obj2str :: "(double \<Rightarrow> string) \<Rightarrow> object \<Rightarrow> object_error + string" where
  "obj2str to_string obj =
     (if is_String obj then Inr (un_String obj)
      else if is_Number obj then Inr (to_string (un_Number obj))
      else if is_Boolean obj then Inr (if un_Boolean obj then ''true'' else ''false'')
      else if is_Null obj then Inr ''nil''
      else if is_CallPtr obj then Inr ''callable''
      else Inl UnknownObjectType)"

text \<open>The second copy of object.cpp among the sources has the same chain without the
  \<^verbatim>\<open>CallPtr\<close> test.\<close>

definition obj2str_001 :: "(double \<Rightarrow> string) \<Rightarrow> object \<Rightarrow> object_error + string" where
  "obj2str_001 to_string obj =
     (if is_String obj then Inr (un_String obj)
      else if is_Number obj then Inr (to_string (un_Number obj))
      else if is_Boolean obj then Inr (if un_Boolean obj then ''true'' else ''false'')
      else if is_Null obj then Inr ''nil''
      else Inl UnknownObjectType)"

text \<open>\<^verbatim>\<open>isTruthy\<close>: "false and nil are falsey, and everything else is truthy".\<close>

definition isTruthy :: "object \<Rightarrow> bool" where
  "isTruthy obj =
     (if is_Null obj then False
      else if is_Boolean obj then un_Boolean obj
      else True)"

text \<open>The second copy of object.cpp writes \<^verbatim>\<open>isTruthy\<close> as a visitor with one test for
  each of four alternatives and a throwing \<^verbatim>\<open>else\<close>.\<close>

definition isTruthy_001 :: "object \<Rightarrow> object_error + bool" where
  "isTruthy_001 obj =
     (if is_String obj then Inr True
      else if is_Number obj then Inr True
      else if is_Boolean obj then Inr (un_Boolean obj)
      else if is_Null obj then Inr False
      else Inl UnknownObjectType)"

definition isEqual :: "object \<Rightarrow> object \<Rightarrow> bool" where
  "isEqual a b =
     (if is_Null a \<and> is_Null b then True
      else if is_Null a then False
      else variant_eq a b)"

section \<open>Tokens and syntax trees\<close>

text \<open>
  Modelled from the spec: \<^verbatim>\<open>Token::Type\<close> is "a fixed enumeration including
  single/double-character operators, literals, keywords, identifiers, end-of-input". It is
  generated from token.def and from unicode/basic_latin.def, which is not among the sources
  at hand: the punctuation kinds and \<^verbatim>\<open>EndOfFile\<close> carry the names parser.cpp uses for
  them. parser.cpp writes
  \<^verbatim>\<open>BangEqual\<close> where token.def lists \<^verbatim>\<open>ExclaimEqual\<close>; the parser's name is kept.
  Each enumerator \<^verbatim>\<open>Token::Type::X\<close> is written \<open>T_X\<close>.
\<close>

datatype token_type =
    T_LeftParenthesis | T_RightParenthesis | T_LeftCurlyBracket | T_RightCurlyBracket
  | T_Comma | T_Dot | T_Minus | T_Plus | T_Semicolon | T_Slash | T_Star
  | T_Bang | T_Equal | T_GreaterThanSign | T_LessThanSign
  | T_BangEqual | T_EqualEqual | T_GreaterEqual | T_LessEqual
  | T_Identifier | T_NumberLiteral | T_StringLiteral
  | T_And | T_Class | T_Else | T_False | T_Fun | T_For | T_If | T_Nil | T_Or
  | T_Print | T_Return | T_Super | T_This | T_True | T_Var | T_While
  | T_EndOfFile

text \<open>Modelled from the spec: the declaration of \<^verbatim>\<open>Token\<close> is not among the sources at
  hand. A token is "a classified lexeme with a kind, a line number for diagnostics, the raw
  lexeme text, and an optional attached literal value"; parser.cpp reads the members
  \<^verbatim>\<open>type\<close>, \<^verbatim>\<open>line\<close> and \<^verbatim>\<open>literal\<close>. Tokens come from the scanner, which is outside
  the parser.\<close>

record Token =
  type :: token_type
  line :: int
  lexeme :: string
  literal :: object

text \<open>Modelled from the spec: the node classes are declared in a header that is not
  among the sources at hand. The expression nodes are the "closed set of variants" of the
  spec, with the arguments in the order \<^verbatim>\<open>makeAstNode\<close> receives them in parser.cpp.\<close>

datatype Expr =
    Literal object
  | is_Variable: Variable Token
  | Assign Token Expr
  | Grouping Expr
  | Unary Token Expr
  | Binary Expr Token Expr
  | Logical Expr Token Expr

text \<open>
  Modelled from the spec: the statement nodes, from the same header, in the same way. A
  \<^verbatim>\<open>Stmt *\<close> that can be \<^verbatim>\<open>nullptr\<close> is a \<open>Stmt option\<close>: the
  entries of a block (\<^verbatim>\<open>declaration\<close> returns \<^verbatim>\<open>nullptr\<close> after an error), the
  initializer of a variable declaration and the else branch. \<open>IfStmt\<close> is the node \<^verbatim>\<open>If\<close>.
\<close>

datatype Stmt =
    ExprStmt Expr
  | Print Expr
  | VarDecl Token "Expr option"
  | Block "Stmt option list"
  | IfStmt Expr Stmt "Stmt option"
  | While Expr Stmt

section \<open>The parser state and its primitive operations (parser.cpp)\<close>

text \<open>
  What an operation of the parser can end with instead of a value: a \<^verbatim>\<open>RuntimeError\<close>
  (the parse error, carrying a token and a message), the \<^verbatim>\<open>std::out_of_range\<close> of
  \<^verbatim>\<open>std::vector::at\<close>, or the exhaustion of the recursion budget of this model.
\<close>

datatype error = RuntimeError Token string | OutOfRange | OutOfFuel

text \<open>
  Modelled from the spec: parser.h and raft.h are not among the sources at hand. The parser
  "holds no shared mutable state beyond its own current-position cursor into the token
  sequence": the members \<^verbatim>\<open>tokens\<close> and \<^verbatim>\<open>current\<close>, the cursor starting at 0.
  \<^verbatim>\<open>Raft::error(line, message)\<close> is a static call into the diagnostics sink, which
  "receives (line: integer, message: text) pairs"; \<open>reported\<close> records the calls in order.
\<close>

record Parser =
  tokens :: "Token list"
  current :: nat
  reported :: "(int \<times> string) list"

text \<open>
  An operation takes the parser state and returns a value or an error, together with the
  state it leaves: the cursor and the reports made before a throw stay as they are.
\<close>

type_synonym 'a action = "Parser \<Rightarrow> (error + 'a) \<times> Parser"

definition return :: "'a \<Rightarrow> 'a action" where
  "return a p = (Inr a, p)"

definition throw :: "error \<Rightarrow> 'a action" where
  "throw e p = (Inl e, p)"

definition bind :: "'a action \<Rightarrow> ('a \<Rightarrow> 'b action) \<Rightarrow> 'b action" where
  "bind m f p = (case m p of (Inl e, p') \<Rightarrow> (Inl e, p') | (Inr a, p') \<Rightarrow> f a p')"

text \<open>\<^verbatim>\<open>try { ... } catch (const RuntimeError &ex) { ... }\<close>: only a \<^verbatim>\<open>RuntimeError\<close>
  reaches the handler.\<close>

definition try_catch :: "'a action \<Rightarrow> (Token \<Rightarrow> string \<Rightarrow> 'a action) \<Rightarrow> 'a action" where
  "try_catch m h p =
     (case m p of
        (Inl (RuntimeError tok msg), p') \<Rightarrow> h tok msg p'
      | (Inl e, p') \<Rightarrow> (Inl e, p')
      | (Inr a, p') \<Rightarrow> (Inr a, p'))"

text \<open>Modelled from the spec: \<^verbatim>\<open>Raft::error\<close> is defined outside parser.cpp. The sink
  receives one line number and one message for each error; the call returns to the parser.\<close>

definition Raft_error :: "int \<Rightarrow> string \<Rightarrow> unit action" where
  "Raft_error ln message p = (Inr (), p\<lparr>reported := reported p @ [(ln, message)]\<rparr>)"

text \<open>\<^verbatim>\<open>tokens.at(current)\<close> and \<^verbatim>\<open>tokens.at(current - 1)\<close> throw when the index is
  not below the size of the vector; at \<^verbatim>\<open>current == 0\<close> the unsigned \<^verbatim>\<open>current - 1\<close>
  wraps to the largest index and throws as well.\<close>

definition peek :: "Token action" where
  "peek p =
     (if current p < length (tokens p) then (Inr (tokens p ! current p), p)
      else (Inl OutOfRange, p))"

definition previous :: "Token action" where
  "previous p =
     (if 0 < current p \<and> current p - 1 < length (tokens p)
      then (Inr (tokens p ! (current p - 1)), p)
      else (Inl OutOfRange, p))"

definition isAtEnd :: "bool action" where
  "isAtEnd = bind peek (\<lambda>t. return (type t = T_EndOfFile))"

text \<open>\<^verbatim>\<open>current++\<close>\<close>

definition incr_current :: "unit action" where
  "incr_current p = (Inr (), p\<lparr>current := current p + 1\<rparr>)"

definition advance :: "Token action" where
  "advance =
     bind isAtEnd (\<lambda>e.
     bind (if \<not> e then incr_current else return ()) (\<lambda>_.
     previous))"

definition check :: "token_type \<Rightarrow> bool action" where
  "check ty =
     bind isAtEnd (\<lambda>e.
     if e then return False
     else bind peek (\<lambda>t. return (type t = ty)))"

definition consume :: "token_type \<Rightarrow> string \<Rightarrow> Token action" where
  "consume ty message =
     bind (check ty) (\<lambda>c.
     if c then advance
     else bind peek (\<lambda>t. throw (RuntimeError t message)))"

text \<open>
  Modelled from the spec: \<^verbatim>\<open>match\<close> is a variadic template of parser.h, which is not
  among the sources at hand. It is the "ordered \<^verbatim>\<open>match\<close>-style token test" of the
  grammar rules: the kinds are tried in order with \<^verbatim>\<open>check\<close>, and the first that fits
  consumes the token with \<^verbatim>\<open>advance\<close>.
\<close>

fun match :: "token_type list \<Rightarrow> bool action" where
  "match [] = return False"
| "match (ty # tys) =
     bind (check ty) (\<lambda>c.
     if c then bind advance (\<lambda>_. return True)
     else match tys)"

text \<open>The messages quote punctuation with the character \<^verbatim>\<open>'\<close>.\<close>

definition quoted :: "string \<Rightarrow> string" where
  "quoted s = CHR 0x27 # s @ [CHR 0x27]"

section \<open>Expressions\<close>

text \<open>
  One function for each grammar rule, as in the source. The first argument bounds the depth
  of calls and the number of loop iterations: every call passes one less, and \<open>OutOfFuel\<close>
  is the result at 0. The body of each \<^verbatim>\<open>while (match(...))\<close> loop is the function
  with the suffix \<open>_loop\<close>, which carries the local \<^verbatim>\<open>expr\<close>. \<open>term_rule\<close> is
  \<^verbatim>\<open>Parser::term\<close>.
\<close>

fun expression :: "nat \<Rightarrow> Expr action"
  and assignment :: "nat \<Rightarrow> Expr action"
  and equality :: "nat \<Rightarrow> Expr action"
  and equality_loop :: "nat \<Rightarrow> Expr \<Rightarrow> Expr action"
  and comparison :: "nat \<Rightarrow> Expr action"
  and comparison_loop :: "nat \<Rightarrow> Expr \<Rightarrow> Expr action"
  and term_rule :: "nat \<Rightarrow> Expr action"
  and term_loop :: "nat \<Rightarrow> Expr \<Rightarrow> Expr action"
  and factor :: "nat \<Rightarrow> Expr action"
  and factor_loop :: "nat \<Rightarrow> Expr \<Rightarrow> Expr action"
  and logicOr :: "nat \<Rightarrow> Expr action"
  and logicOr_loop :: "nat \<Rightarrow> Expr \<Rightarrow> Expr action"
  and logicAnd :: "nat \<Rightarrow> Expr action"
  and logicAnd_loop :: "nat \<Rightarrow> Expr \<Rightarrow> Expr action"
  and unary :: "nat \<Rightarrow> Expr action"
  and primary :: "nat \<Rightarrow> Expr action"
where
  "expression 0 = throw OutOfFuel"
| "expression (Suc n) = assignment n"
| "assignment 0 = throw OutOfFuel"
| "assignment (Suc n) =
     bind (logicOr n) (\<lambda>expr.
     bind (match [T_Equal]) (\<lambda>m.
     if m then
       bind previous (\<lambda>equals.
       bind (assignment n) (\<lambda>val.
       case expr of
         Variable name \<Rightarrow> return (Assign name val)
       | _ \<Rightarrow> bind (Raft_error (line equals) ''Invalid assignment target'') (\<lambda>_. return expr)))
     else return expr))"
| "equality 0 = throw OutOfFuel"
| "equality (Suc n) = bind (comparison n) (equality_loop n)"
| "equality_loop 0 expr = throw OutOfFuel"
| "equality_loop (Suc n) expr =
     bind (match [T_BangEqual, T_EqualEqual]) (\<lambda>m.
     if m then
       bind previous (\<lambda>op.
       bind (comparison n) (\<lambda>right.
       equality_loop n (Binary expr op right)))
     else return expr)"
| "comparison 0 = throw OutOfFuel"
| "comparison (Suc n) = bind (term_rule n) (comparison_loop n)"
| "comparison_loop 0 expr = throw OutOfFuel"
| "comparison_loop (Suc n) expr =
     bind (match [T_GreaterThanSign, T_GreaterEqual, T_LessThanSign, T_LessEqual]) (\<lambda>m.
     if m then
       bind previous (\<lambda>op.
       bind (term_rule n) (\<lambda>right.
       comparison_loop n (Binary expr op right)))
     else return expr)"
| "term_rule 0 = throw OutOfFuel"
| "term_rule (Suc n) = bind (factor n) (term_loop n)"
| "term_loop 0 expr = throw OutOfFuel"
| "term_loop (Suc n) expr =
     bind (match [T_Minus, T_Plus]) (\<lambda>m.
     if m then
       bind previous (\<lambda>op.
       bind (factor n) (\<lambda>right.
       term_loop n (Binary expr op right)))
     else return expr)"
| "factor 0 = throw OutOfFuel"
| "factor (Suc n) = bind (unary n) (factor_loop n)"
| "factor_loop 0 expr = throw OutOfFuel"
| "factor_loop (Suc n) expr =
     bind (match [T_Slash, T_Star]) (\<lambda>m.
     if m then
       bind previous (\<lambda>op.
       bind (unary n) (\<lambda>right.
       factor_loop n (Binary expr op right)))
     else return expr)"
| "logicOr 0 = throw OutOfFuel"
| "logicOr (Suc n) = bind (logicAnd n) (logicOr_loop n)"
| "logicOr_loop 0 expr = throw OutOfFuel"
| "logicOr_loop (Suc n) expr =
     bind (match [T_Or]) (\<lambda>m.
     if m then
       bind previous (\<lambda>op.
       bind (logicAnd n) (\<lambda>right.
       logicOr_loop n (Logical expr op right)))
     else return expr)"
| "logicAnd 0 = throw OutOfFuel"
| "logicAnd (Suc n) = bind (equality n) (logicAnd_loop n)"
| "logicAnd_loop 0 expr = throw OutOfFuel"
| "logicAnd_loop (Suc n) expr =
     bind (match [T_And]) (\<lambda>m.
     if m then
       bind previous (\<lambda>op.
       bind (equality n) (\<lambda>right.
       logicAnd_loop n (Logical expr op right)))
     else return expr)"
| "unary 0 = throw OutOfFuel"
| "unary (Suc n) =
     bind (match [T_Bang, T_Minus]) (\<lambda>m.
     if m then
       bind previous (\<lambda>op.
       bind (unary n) (\<lambda>right.
       return (Unary op right)))
     else primary n)"
| "primary 0 = throw OutOfFuel"
| "primary (Suc n) =
     bind (match [T_False]) (\<lambda>m.
     if m then return (Literal (Boolean False)) else
     bind (match [T_True]) (\<lambda>m.
     if m then return (Literal (Boolean True)) else
     bind (match [T_Nil]) (\<lambda>m.
     if m then return (Literal Null) else
     bind (match [T_NumberLiteral, T_StringLiteral]) (\<lambda>m.
     if m then bind previous (\<lambda>t. return (Literal (literal t))) else
     bind (match [T_Identifier]) (\<lambda>m.
     if m then bind previous (\<lambda>t. return (Variable t)) else
     bind (match [T_LeftParenthesis]) (\<lambda>m.
     if m then
       bind (expression n) (\<lambda>expr.
       bind (consume T_RightParenthesis (''Exprect '' @ quoted '')'' @ '' after expression'')) (\<lambda>_.
       return (Grouping expr)))
     else bind peek (\<lambda>t. throw (RuntimeError t ''Expect expression''))))))))"

section \<open>Statements and error recovery\<close>

fun synchronize_loop :: "nat \<Rightarrow> unit action" where
  "synchronize_loop 0 = throw OutOfFuel"
| "synchronize_loop (Suc n) =
     bind isAtEnd (\<lambda>e.
     if e then return ()
     else
       bind previous (\<lambda>prev.
       if type prev = T_Semicolon then return ()
       else
         bind peek (\<lambda>t.
         if type t \<in> {T_Class, T_Fun, T_Var, T_For, T_If, T_While, T_Print, T_Return}
         then return ()
         else bind advance (\<lambda>_. synchronize_loop n))))"

definition synchronize :: "nat \<Rightarrow> unit action" where
  "synchronize n = bind advance (\<lambda>_. synchronize_loop n)"

definition varDeclaration :: "nat \<Rightarrow> Stmt action" where
  "varDeclaration n =
     bind (consume T_Identifier ''Expect variable name'') (\<lambda>name.
     bind (match [T_Equal]) (\<lambda>m.
     bind (if m then bind (expression n) (\<lambda>e. return (Some e)) else return None) (\<lambda>initializer.
     bind (consume T_Semicolon (''Expect '' @ quoted '';'' @ '' after variable declaration'')) (\<lambda>_.
     return (VarDecl name initializer)))))"

definition printStatement :: "nat \<Rightarrow> Stmt action" where
  "printStatement n =
     bind (expression n) (\<lambda>val.
     bind (consume T_Semicolon (''Expect '' @ quoted '';'' @ '' after value'')) (\<lambda>_.
     return (Print val)))"

definition expressionStatement :: "nat \<Rightarrow> Stmt action" where
  "expressionStatement n =
     bind (expression n) (\<lambda>expr.
     bind (consume T_Semicolon (''Exprect '' @ quoted '';'' @ '' after expession'')) (\<lambda>_.
     return (ExprStmt expr)))"

text \<open>The rewriting at the end of \<^verbatim>\<open>forStatement\<close>, from the four parts parsed before
  it: "for(init; cond; iter) body is equivalent to init while(cond) { body iter }".\<close>

definition forDesugar :: "Stmt option \<Rightarrow> Expr option \<Rightarrow> Expr option \<Rightarrow> Stmt \<Rightarrow> Stmt" where
  "forDesugar initializer condition increment body =
     (let body1 = (case increment of
                     Some inc \<Rightarrow> Block [Some body, Some (ExprStmt inc)]
                   | None \<Rightarrow> body);
          condition1 = (case condition of
                          None \<Rightarrow> Literal (Boolean True)
                        | Some c \<Rightarrow> c);
          body2 = While condition1 body1
      in case initializer of
           Some init \<Rightarrow> Block [Some init, Some body2]
         | None \<Rightarrow> body2)"

text \<open>\<open>declaration_rule\<close> is \<^verbatim>\<open>Parser::declaration\<close>.\<close>

fun declaration_rule :: "nat \<Rightarrow> Stmt option action"
  and statement :: "nat \<Rightarrow> Stmt action"
  and forStatement :: "nat \<Rightarrow> Stmt action"
  and ifStatement :: "nat \<Rightarrow> Stmt action"
  and whileStatement :: "nat \<Rightarrow> Stmt action"
  and block :: "nat \<Rightarrow> Stmt option list action"
  and block_loop :: "nat \<Rightarrow> Stmt option list \<Rightarrow> Stmt option list action"
where
  "declaration_rule 0 = throw OutOfFuel"
| "declaration_rule (Suc n) =
     try_catch
       (bind (match [T_Var]) (\<lambda>m.
        if m then bind (varDeclaration n) (\<lambda>s. return (Some s))
        else bind (statement n) (\<lambda>s. return (Some s))))
       (\<lambda>tok message.
        bind (Raft_error (line tok) message) (\<lambda>_.
        bind (synchronize n) (\<lambda>_.
        return None)))"
| "statement 0 = throw OutOfFuel"
| "statement (Suc n) =
     bind (match [T_For]) (\<lambda>m.
     if m then forStatement n else
     bind (match [T_If]) (\<lambda>m.
     if m then ifStatement n else
     bind (match [T_Print]) (\<lambda>m.
     if m then printStatement n else
     bind (match [T_While]) (\<lambda>m.
     if m then whileStatement n else
     bind (match [T_LeftCurlyBracket]) (\<lambda>m.
     if m then bind (block n) (\<lambda>stmts. return (Block stmts))
     else expressionStatement n)))))"
| "forStatement 0 = throw OutOfFuel"
| "forStatement (Suc n) =
     bind (consume T_LeftParenthesis (''Expect '' @ quoted ''('' @ '' after '' @ quoted ''for'')) (\<lambda>_.
     bind (bind (match [T_Semicolon]) (\<lambda>m.
           if m then return None else
           bind (match [T_Var]) (\<lambda>m.
           if m then bind (varDeclaration n) (\<lambda>s. return (Some s))
           else bind (expressionStatement n) (\<lambda>s. return (Some s))))) (\<lambda>initializer.
     bind (bind (check T_Semicolon) (\<lambda>c.
           if \<not> c then bind (expression n) (\<lambda>e. return (Some e))
           else return None)) (\<lambda>condition.
     bind (consume T_Semicolon (''Expect '' @ quoted '';'' @ '' after loop condition'')) (\<lambda>_.
     bind (bind (check T_RightParenthesis) (\<lambda>c.
           if \<not> c then bind (expression n) (\<lambda>e. return (Some e))
           else return None)) (\<lambda>increment.
     bind (consume T_RightParenthesis (''Expect '' @ quoted '')'' @ '' after for clauses'')) (\<lambda>_.
     bind (statement n) (\<lambda>body.
     return (forDesugar initializer condition increment body))))))))"
| "ifStatement 0 = throw OutOfFuel"
| "ifStatement (Suc n) =
     bind (consume T_LeftParenthesis (''Exprect '' @ quoted ''('' @ '' after '' @ quoted ''if'')) (\<lambda>_.
     bind (expression n) (\<lambda>condition.
     bind (consume T_RightParenthesis (''Exprect '' @ quoted '')'' @ '' after if condition'')) (\<lambda>_.
     bind (statement n) (\<lambda>thenBranch.
     bind (match [T_Else]) (\<lambda>m.
     bind (if m then bind (statement n) (\<lambda>s. return (Some s)) else return None) (\<lambda>elseBranch.
     return (IfStmt condition thenBranch elseBranch)))))))"
| "whileStatement 0 = throw OutOfFuel"
| "whileStatement (Suc n) =
     bind (consume T_LeftParenthesis (''Expect '' @ quoted ''('' @ '' after '' @ quoted ''while'')) (\<lambda>_.
     bind (expression n) (\<lambda>condition.
     bind (consume T_RightParenthesis (''Exprect '' @ quoted '')'' @ '' after condition'')) (\<lambda>_.
     bind (statement n) (\<lambda>body.
     return (While condition body)))))"
| "block 0 = throw OutOfFuel"
| "block (Suc n) =
     bind (block_loop n []) (\<lambda>statements.
     bind (consume T_RightCurlyBracket (''Exprect '' @ quoted ''}'' @ '' after block'')) (\<lambda>_.
     return statements))"
| "block_loop 0 statements = throw OutOfFuel"
| "block_loop (Suc n) statements =
     bind (check T_RightCurlyBracket) (\<lambda>c.
     if c then return statements else
     bind isAtEnd (\<lambda>e.
     if e then return statements else
     bind (declaration_rule n) (\<lambda>d.
     block_loop n (statements @ [d]))))"

text \<open>
  \<^verbatim>\<open>Parser::parse\<close>. The loop lives inside the \<^verbatim>\<open>try\<close> block and the local
  \<^verbatim>\<open>statements\<close> outlives a throw, so the loop returns the statements collected so far
  together with the error that ended it, if any.
\<close>

fun parse_loop :: "nat \<Rightarrow> Stmt option list \<Rightarrow> Parser \<Rightarrow> (error option \<times> Stmt option list) \<times> Parser" where
  "parse_loop 0 statements p = ((Some OutOfFuel, statements), p)"
| "parse_loop (Suc n) statements p =
     (case isAtEnd p of
        (Inl e, p1) \<Rightarrow> ((Some e, statements), p1)
      | (Inr True, p1) \<Rightarrow> ((None, statements), p1)
      | (Inr False, p1) \<Rightarrow>
          (case declaration_rule n p1 of
             (Inl e, p2) \<Rightarrow> ((Some e, statements), p2)
           | (Inr d, p2) \<Rightarrow> parse_loop n (statements @ [d]) p2))"

text \<open>The constructor \<^verbatim>\<open>Parser::Parser(tokens)\<close>, with nothing reported yet.\<close>

definition Parser_new :: "Token list \<Rightarrow> Parser" where
  "Parser_new ts = \<lparr>tokens = ts, current = 0, reported = []\<rparr>"

definition parse :: "nat \<Rightarrow> Parser \<Rightarrow> (error + Stmt option list) \<times> Parser" where
  "parse n p =
     (case parse_loop n [] p of
        ((None, statements), p1) \<Rightarrow> (Inr statements, p1)
      | ((Some (RuntimeError tok message), statements), p1) \<Rightarrow>
          bind (Raft_error (line tok) message) (\<lambda>_.
          bind (synchronize n) (\<lambda>_.
          return statements)) p1
      | ((Some e, statements), p1) \<Rightarrow> (Inl e, p1))"

section \<open>Token sequences used as examples\<close>

text \<open>The scanner is outside the parser; the token sequences it would produce for the
  example sources are written out by hand. A token without a literal carries \<open>Null\<close>.\<close>

definition mk_token :: "token_type \<Rightarrow> string \<Rightarrow> int \<Rightarrow> Token" where
  "mk_token ty text ln = \<lparr>type = ty, line = ln, lexeme = text, literal = Null\<rparr>"

definition mk_number :: "string \<Rightarrow> double \<Rightarrow> int \<Rightarrow> Token" where
  "mk_number text d ln = \<lparr>type = T_NumberLiteral, line = ln, lexeme = text, literal = Number d\<rparr>"

text \<open>The doubles 0, 1, 2 and 3.\<close>

definition d0 :: double where "d0 = 0"
definition d1 :: double where "d1 = 0x3FF0000000000000"
definition d2 :: double where "d2 = 0x4000000000000000"
definition d3 :: double where "d3 = 0x4008000000000000"

text \<open>\<^verbatim>\<open>1 + 2 * 3\<close>\<close>

definition src_precedence :: "Token list" where
  "src_precedence =
     [mk_number ''1'' d1 1, mk_token T_Plus ''+'' 1, mk_number ''2'' d2 1,
      mk_token T_Star ''*'' 1, mk_number ''3'' d3 1, mk_token T_EndOfFile [] 1]"

text \<open>\<^verbatim>\<open>1 - 2 - 3\<close>\<close>

definition src_associativity :: "Token list" where
  "src_associativity =
     [mk_number ''1'' d1 1, mk_token T_Minus ''-'' 1, mk_number ''2'' d2 1,
      mk_token T_Minus ''-'' 1, mk_number ''3'' d3 1, mk_token T_EndOfFile [] 1]"

text \<open>\<^verbatim>\<open>1 = 2;\<close> with the equals sign on the second line and \<^verbatim>\<open>2;\<close> on the third.\<close>

definition src_assign :: "Token list" where
  "src_assign =
     [mk_number ''1'' d1 1, mk_token T_Equal ''='' 2, mk_number ''2'' d2 3,
      mk_token T_Semicolon '';'' 3, mk_token T_EndOfFile [] 3]"

text \<open>\<^verbatim>\<open>1 = ;\<close>\<close>

definition src_assign_no_value :: "Token list" where
  "src_assign_no_value =
     [mk_number ''1'' d1 1, mk_token T_Equal ''='' 1, mk_token T_Semicolon '';'' 1,
      mk_token T_EndOfFile [] 1]"

text \<open>\<^verbatim>\<open>for (var i = 0; i < 3; i = i + 1) print i;\<close>\<close>

definition src_for :: "Token list" where
  "src_for =
     [mk_token T_For ''for'' 1, mk_token T_LeftParenthesis ''('' 1,
      mk_token T_Var ''var'' 1, mk_token T_Identifier ''i'' 1, mk_token T_Equal ''='' 1,
      mk_number ''0'' d0 1, mk_token T_Semicolon '';'' 1,
      mk_token T_Identifier ''i'' 1, mk_token T_LessThanSign ''<'' 1, mk_number ''3'' d3 1,
      mk_token T_Semicolon '';'' 1,
      mk_token T_Identifier ''i'' 1, mk_token T_Equal ''='' 1, mk_token T_Identifier ''i'' 1,
      mk_token T_Plus ''+'' 1, mk_number ''1'' d1 1, mk_token T_RightParenthesis '')'' 1,
      mk_token T_Print ''print'' 1, mk_token T_Identifier ''i'' 1, mk_token T_Semicolon '';'' 1,
      mk_token T_EndOfFile [] 1]"

text \<open>\<^verbatim>\<open>print ; print ; print 1;\<close> on three lines.\<close>

definition src_two_errors :: "Token list" where
  "src_two_errors =
     [mk_token T_Print ''print'' 1, mk_token T_Semicolon '';'' 1,
      mk_token T_Print ''print'' 2, mk_token T_Semicolon '';'' 2,
      mk_token T_Print ''print'' 3, mk_number ''1'' d1 3, mk_token T_Semicolon '';'' 3,
      mk_token T_EndOfFile [] 3]"

text \<open>\<^verbatim>\<open>1 = 2 3; print ; print 1;\<close> on three lines.\<close>

definition src_two_errors_three_reports :: "Token list" where
  "src_two_errors_three_reports =
     [mk_number ''1'' d1 1, mk_token T_Equal ''='' 1, mk_number ''2'' d2 1, mk_number ''3'' d3 1,
      mk_token T_Semicolon '';'' 1,
      mk_token T_Print ''print'' 2, mk_token T_Semicolon '';'' 2,
      mk_token T_Print ''print'' 3, mk_number ''1'' d1 3, mk_token T_Semicolon '';'' 3,
      mk_token T_EndOfFile [] 3]"

text \<open>\<^verbatim>\<open>print 1 2 3; var = 2; print 3;\<close> on three lines.\<close>

definition src_two_skipped :: "Token list" where
  "src_two_skipped =
     [mk_token T_Print ''print'' 1, mk_number ''1'' d1 1, mk_number ''2'' d2 1,
      mk_number ''3'' d3 1, mk_token T_Semicolon '';'' 1,
      mk_token T_Var ''var'' 2, mk_token T_Equal ''='' 2, mk_number ''2'' d2 2,
      mk_token T_Semicolon '';'' 2,
      mk_token T_Print ''print'' 3, mk_number ''3'' d3 3, mk_token T_Semicolon '';'' 3,
      mk_token T_EndOfFile [] 3]"

text \<open>\<^verbatim>\<open>a = b or c and d == e < f + g * -h\<close>\<close>

definition src_chain_rising :: "Token list" where
  "src_chain_rising =
     [mk_token T_Identifier ''a'' 1, mk_token T_Equal ''='' 1,
      mk_token T_Identifier ''b'' 1, mk_token T_Or ''or'' 1,
      mk_token T_Identifier ''c'' 1, mk_token T_And ''and'' 1,
      mk_token T_Identifier ''d'' 1, mk_token T_EqualEqual ''=='' 1,
      mk_token T_Identifier ''e'' 1, mk_token T_LessThanSign ''<'' 1,
      mk_token T_Identifier ''f'' 1, mk_token T_Plus ''+'' 1,
      mk_token T_Identifier ''g'' 1, mk_token T_Star ''*'' 1,
      mk_token T_Minus ''-'' 1, mk_token T_Identifier ''h'' 1,
      mk_token T_EndOfFile [] 1]"

text \<open>\<^verbatim>\<open>-a * b + c < d == e and f or g\<close>\<close>

definition src_chain_falling :: "Token list" where
  "src_chain_falling =
     [mk_token T_Minus ''-'' 1, mk_token T_Identifier ''a'' 1,
      mk_token T_Star ''*'' 1, mk_token T_Identifier ''b'' 1,
      mk_token T_Plus ''+'' 1, mk_token T_Identifier ''c'' 1,
      mk_token T_LessThanSign ''<'' 1, mk_token T_Identifier ''d'' 1,
      mk_token T_EqualEqual ''=='' 1, mk_token T_Identifier ''e'' 1,
      mk_token T_And ''and'' 1, mk_token T_Identifier ''f'' 1,
      mk_token T_Or ''or'' 1, mk_token T_Identifier ''g'' 1,
      mk_token T_EndOfFile [] 1]"

text \<open>\<^verbatim>\<open>1 or 2 or 3\<close>\<close>

definition src_logical :: "Token list" where
  "src_logical =
     [mk_number ''1'' d1 1, mk_token T_Or ''or'' 1, mk_number ''2'' d2 1,
      mk_token T_Or ''or'' 1, mk_number ''3'' d3 1, mk_token T_EndOfFile [] 1]"

text \<open>\<^verbatim>\<open>for (;;) print i;\<close>\<close>

definition src_for_ever :: "Token list" where
  "src_for_ever =
     [mk_token T_For ''for'' 1, mk_token T_LeftParenthesis ''('' 1,
      mk_token T_Semicolon '';'' 1, mk_token T_Semicolon '';'' 1,
      mk_token T_RightParenthesis '')'' 1,
      mk_token T_Print ''print'' 1, mk_token T_Identifier ''i'' 1, mk_token T_Semicolon '';'' 1,
      mk_token T_EndOfFile [] 1]"

text \<open>\<^verbatim>\<open>for (var i = 0;; i = i + 1) print i;\<close>\<close>

definition src_for_no_condition :: "Token list" where
  "src_for_no_condition =
     [mk_token T_For ''for'' 1, mk_token T_LeftParenthesis ''('' 1,
      mk_token T_Var ''var'' 1, mk_token T_Identifier ''i'' 1, mk_token T_Equal ''='' 1,
      mk_number ''0'' d0 1, mk_token T_Semicolon '';'' 1, mk_token T_Semicolon '';'' 1,
      mk_token T_Identifier ''i'' 1, mk_token T_Equal ''='' 1, mk_token T_Identifier ''i'' 1,
      mk_token T_Plus ''+'' 1, mk_number ''1'' d1 1, mk_token T_RightParenthesis '')'' 1,
      mk_token T_Print ''print'' 1, mk_token T_Identifier ''i'' 1, mk_token T_Semicolon '';'' 1,
      mk_token T_EndOfFile [] 1]"

section \<open>Folding operands to the left\<close>

text \<open>The tokens of a run of operator and operand pairs, and the tree that takes each new
  right-hand operand, a number literal, onto the tree built so far.\<close>

definition chain :: "(Token \<times> Token) list \<Rightarrow> Token list" where
  "chain ops = concat (map (\<lambda>(op, x). [op, x]) ops)"

definition fold_binary :: "Expr \<Rightarrow> (Token \<times> Token) list \<Rightarrow> Expr" where
  "fold_binary e ops = foldl (\<lambda>left (op, x). Binary left op (Literal (literal x))) e ops"

section \<open>Assertions about parser states\<close>

text \<open>
  \<open>valid P m Q E\<close>: started in a state that satisfies \<open>P\<close>, the operation \<open>m\<close> ends with a
  value \<open>a\<close> in a state that satisfies \<open>Q a\<close>, or with an error \<open>e\<close> in a state that
  satisfies \<open>E e\<close>.
\<close>

definition valid :: "(Parser \<Rightarrow> bool) \<Rightarrow> 'a action \<Rightarrow> ('a \<Rightarrow> Parser \<Rightarrow> bool) \<Rightarrow> (error \<Rightarrow> Parser \<Rightarrow> bool) \<Rightarrow> bool" where
  "valid P m Q E \<longleftrightarrow>
     (\<forall>p. P p \<longrightarrow> (case m p of (Inr a, p') \<Rightarrow> Q a p' | (Inl e, p') \<Rightarrow> E e p'))"

text \<open>A token sequence that ends with the end-of-input token.\<close>

definition terminated :: "Token list \<Rightarrow> bool" where
  "terminated ts \<longleftrightarrow> ts \<noteq> [] \<and> type (last ts) = T_EndOfFile"

text \<open>The parser works on \<open>ts\<close> and its cursor is at \<open>c\<close> or beyond, inside \<open>ts\<close>.\<close>

definition within :: "Token list \<Rightarrow> nat \<Rightarrow> Parser \<Rightarrow> bool" where
  "within ts c p \<longleftrightarrow> tokens p = ts \<and> c \<le> current p \<and> current p < length ts"

text \<open>A recursion budget that is enough for a rule of rank \<open>r\<close> started at cursor \<open>c\<close>:
  twenty calls for each token that is left, and \<open>r\<close> more.\<close>

definition need :: "Token list \<Rightarrow> nat \<Rightarrow> nat \<Rightarrow> nat" where
  "need ts c r = 20 * (length ts - c) + r"

text \<open>The errors an operation may end with: never an index out of range, and no exhausted
  budget when the budget was \<open>enough\<close>.\<close>

definition failing :: "Token list \<Rightarrow> nat \<Rightarrow> bool \<Rightarrow> error \<Rightarrow> Parser \<Rightarrow> bool" where
  "failing ts c enough e p \<longleftrightarrow> e \<noteq> OutOfRange \<and> (enough \<longrightarrow> e \<noteq> OutOfFuel) \<and> within ts c p"

text \<open>A rule that consumes at least one token when it returns, and a loop that may consume
  none.\<close>

definition spec :: "Token list \<Rightarrow> 'a action \<Rightarrow> nat \<Rightarrow> nat \<Rightarrow> bool" where
  "spec ts m r n \<longleftrightarrow>
     (\<forall>c. valid (within ts c) m (\<lambda>_. within ts (Suc c)) (failing ts c (need ts c r \<le> n)))"

definition lspec :: "Token list \<Rightarrow> 'a action \<Rightarrow> nat \<Rightarrow> nat \<Rightarrow> bool" where
  "lspec ts m r n \<longleftrightarrow>
     (\<forall>c. valid (within ts c) m (\<lambda>_. within ts c) (failing ts c (need ts c r \<le> n)))"

text \<open>What \<^verbatim>\<open>check(ty)\<close> answers in a state whose cursor is inside the tokens.\<close>

definition fits :: "token_type \<Rightarrow> Parser \<Rightarrow> bool" where
  "fits ty p \<longleftrightarrow> type (tokens p ! current p) = ty \<and> ty \<noteq> T_EndOfFile"

text \<open>The assertions of all expression rules at one budget, and of all statement rules.
  \<^verbatim>\<open>declaration\<close> is only called where the cursor is not at the end-of-input token.\<close>

definition expr_specs :: "Token list \<Rightarrow> nat \<Rightarrow> bool" where
  "expr_specs ts n \<longleftrightarrow>
     spec ts (primary n) 0 n \<and> spec ts (unary n) 1 n
     \<and> spec ts (factor n) 2 n \<and> (\<forall>e. lspec ts (factor_loop n e) 0 n)
     \<and> spec ts (term_rule n) 3 n \<and> (\<forall>e. lspec ts (term_loop n e) 0 n)
     \<and> spec ts (comparison n) 4 n \<and> (\<forall>e. lspec ts (comparison_loop n e) 0 n)
     \<and> spec ts (equality n) 5 n \<and> (\<forall>e. lspec ts (equality_loop n e) 0 n)
     \<and> spec ts (logicAnd n) 6 n \<and> (\<forall>e. lspec ts (logicAnd_loop n e) 0 n)
     \<and> spec ts (logicOr n) 7 n \<and> (\<forall>e. lspec ts (logicOr_loop n e) 0 n)
     \<and> spec ts (assignment n) 8 n \<and> spec ts (expression n) 9 n"

definition decl_spec :: "Token list \<Rightarrow> nat \<Rightarrow> bool" where
  "decl_spec ts n \<longleftrightarrow>
     (\<forall>k. type (ts ! k) \<noteq> T_EndOfFile \<longrightarrow>
        valid (within ts k) (declaration_rule n) (\<lambda>_. within ts (Suc k))
          (failing ts k (need ts k 11 \<le> n)))"

definition stmt_specs :: "Token list \<Rightarrow> nat \<Rightarrow> bool" where
  "stmt_specs ts n \<longleftrightarrow>
     decl_spec ts n \<and> spec ts (statement n) 10 n
     \<and> spec ts (forStatement n) 0 n \<and> spec ts (ifStatement n) 0 n
     \<and> spec ts (whileStatement n) 0 n \<and> spec ts (block n) 13 n
     \<and> (\<forall>ss. lspec ts (block_loop n ss) 12 n)"

section \<open>Assertions about reports and budgets\<close>

text \<open>At least \<open>k\<close> reports have been made.\<close>

definition keeps :: "nat \<Rightarrow> Parser \<Rightarrow> bool" where
  "keeps k p \<longleftrightarrow> k \<le> length (reported p)"

text \<open>An operation that takes no report back, however it ends.\<close>

definition quiet :: "'a action \<Rightarrow> bool" where
  "quiet m \<longleftrightarrow> (\<forall>k. valid (keeps k) m (\<lambda>_. keeps k) (\<lambda>_. keeps k))"

definition expr_quiet :: "nat \<Rightarrow> bool" where
  "expr_quiet n \<longleftrightarrow>
     quiet (primary n) \<and> quiet (unary n)
     \<and> quiet (factor n) \<and> (\<forall>e. quiet (factor_loop n e))
     \<and> quiet (term_rule n) \<and> (\<forall>e. quiet (term_loop n e))
     \<and> quiet (comparison n) \<and> (\<forall>e. quiet (comparison_loop n e))
     \<and> quiet (equality n) \<and> (\<forall>e. quiet (equality_loop n e))
     \<and> quiet (logicAnd n) \<and> (\<forall>e. quiet (logicAnd_loop n e))
     \<and> quiet (logicOr n) \<and> (\<forall>e. quiet (logicOr_loop n e))
     \<and> quiet (assignment n) \<and> quiet (expression n)"

definition stmt_quiet :: "nat \<Rightarrow> bool" where
  "stmt_quiet n \<longleftrightarrow>
     quiet (declaration_rule n) \<and> quiet (statement n) \<and> quiet (forStatement n)
     \<and> quiet (ifStatement n) \<and> quiet (whileStatement n) \<and> quiet (block n)
     \<and> (\<forall>ss. quiet (block_loop n ss))"

text \<open>\<open>stable m m'\<close>: wherever \<open>m\<close> ends without exhausting its budget, \<open>m'\<close> ends the
  same way in the same state.\<close>

definition stable :: "'a action \<Rightarrow> 'a action \<Rightarrow> bool" where
  "stable m m' \<longleftrightarrow> (\<forall>p. fst (m p) \<noteq> Inl OutOfFuel \<longrightarrow> m' p = m p)"

definition expr_stable :: "nat \<Rightarrow> nat \<Rightarrow> bool" where
  "expr_stable n m \<longleftrightarrow>
     stable (primary n) (primary m) \<and> stable (unary n) (unary m)
     \<and> stable (factor n) (factor m) \<and> (\<forall>e. stable (factor_loop n e) (factor_loop m e))
     \<and> stable (term_rule n) (term_rule m) \<and> (\<forall>e. stable (term_loop n e) (term_loop m e))
     \<and> stable (comparison n) (comparison m)
     \<and> (\<forall>e. stable (comparison_loop n e) (comparison_loop m e))
     \<and> stable (equality n) (equality m) \<and> (\<forall>e. stable (equality_loop n e) (equality_loop m e))
     \<and> stable (logicAnd n) (logicAnd m) \<and> (\<forall>e. stable (logicAnd_loop n e) (logicAnd_loop m e))
     \<and> stable (logicOr n) (logicOr m) \<and> (\<forall>e. stable (logicOr_loop n e) (logicOr_loop m e))
     \<and> stable (assignment n) (assignment m) \<and> stable (expression n) (expression m)"

definition stmt_stable :: "nat \<Rightarrow> nat \<Rightarrow> bool" where
  "stmt_stable n m \<longleftrightarrow>
     stable (declaration_rule n) (declaration_rule m) \<and> stable (statement n) (statement m)
     \<and> stable (forStatement n) (forStatement m) \<and> stable (ifStatement n) (ifStatement m)
     \<and> stable (whileStatement n) (whileStatement m) \<and> stable (block n) (block m)
     \<and> (\<forall>ss. stable (block_loop n ss) (block_loop m ss))"

section \<open>The parts of a for statement\<close>

text \<open>The initializer clause of \<^verbatim>\<open>forStatement\<close>: nothing before a \<^verbatim>\<open>;\<close>, a variable
  declaration, or an expression statement.\<close>

abbreviation for_initializer :: "nat \<Rightarrow> Stmt option action" where
  "for_initializer n \<equiv>
     bind (match [T_Semicolon]) (\<lambda>m.
     if m then return None else
     bind (match [T_Var]) (\<lambda>m.
     if m then bind (varDeclaration n) (\<lambda>s. return (Some s))
     else bind (expressionStatement n) (\<lambda>s. return (Some s))))"

text \<open>The condition and the increment clause of \<^verbatim>\<open>forStatement\<close>: an expression,
  unless the next token is the one that closes the clause, \<^verbatim>\<open>;\<close> for the condition and
  \<^verbatim>\<open>)\<close> for the increment.\<close>

abbreviation for_clause :: "token_type \<Rightarrow> nat \<Rightarrow> Expr option action" where
  "for_clause ty n \<equiv>
     bind (check ty) (\<lambda>c.
     if \<not> c then bind (expression n) (\<lambda>e. return (Some e))
     else return None)"

section \<open>Statements as \<open>parse\<close> meets them\<close>

text \<open>The \<^verbatim>\<open>try\<close> block of \<^verbatim>\<open>Parser::declaration\<close>.\<close>

abbreviation declaration_body :: "nat \<Rightarrow> Stmt option action" where
  "declaration_body n \<equiv>
     bind (match [T_Var]) (\<lambda>m.
     if m then bind (varDeclaration n) (\<lambda>s. return (Some s))
     else bind (statement n) (\<lambda>s. return (Some s)))"

text \<open>The token kinds at which \<^verbatim>\<open>synchronize\<close> stops.\<close>

definition sync_keyword :: "token_type \<Rightarrow> bool" where
  "sync_keyword ty \<longleftrightarrow> ty \<in> {T_Class, T_Fun, T_Var, T_For, T_If, T_While, T_Print, T_Return}"

text \<open>
  What happens to one statement at the top level. \<open>Parsed s c' q\<close>: the \<^verbatim>\<open>try\<close> block
  returns the node \<open>s\<close> with the cursor at \<open>c'\<close>, after making the reports \<open>q\<close>.
  \<open>Skipped t msg e k q\<close>: the \<^verbatim>\<open>try\<close> block throws the error of token \<open>t\<close> and message
  \<open>msg\<close> with the cursor at \<open>e\<close>, after making the reports \<open>q\<close>, and the next \<^verbatim>\<open>;\<close> at
  or after \<open>e\<close> is the token \<open>k\<close>.
\<close>

datatype outcome =
  Parsed Stmt nat "(int \<times> string) list"
| Skipped Token string nat nat "(int \<times> string) list"

text \<open>
  \<open>follows n ts c r os\<close>: from the cursor \<open>c\<close> and the reports \<open>r\<close>, the tokens \<open>ts\<close> are
  a run of statements with the outcomes \<open>os\<close>, each under the budget \<open>n\<close>, up to the
  end-of-input token. A skipped statement has its \<^verbatim>\<open>;\<close> before the end of input, no
  other \<^verbatim>\<open>;\<close> and no end of input from the token of the error up to it, and no token at
  which \<^verbatim>\<open>synchronize\<close> stops strictly between the two; the next statement starts right
  after that \<^verbatim>\<open>;\<close>, with the error added to the reports.
\<close>

fun follows :: "nat \<Rightarrow> Token list \<Rightarrow> nat \<Rightarrow> (int \<times> string) list \<Rightarrow> outcome list \<Rightarrow> bool" where
  "follows n ts c r [] \<longleftrightarrow> c < length ts \<and> type (ts ! c) = T_EndOfFile"
| "follows n ts c r (Parsed s c' q # os) \<longleftrightarrow>
     c < length ts \<and> type (ts ! c) \<noteq> T_EndOfFile
     \<and> declaration_body n \<lparr>tokens = ts, current = c, reported = r\<rparr> =
         (Inr (Some s), \<lparr>tokens = ts, current = c', reported = r @ q\<rparr>)
     \<and> follows n ts c' (r @ q) os"
| "follows n ts c r (Skipped t msg e k q # os) \<longleftrightarrow>
     c < length ts \<and> type (ts ! c) \<noteq> T_EndOfFile
     \<and> declaration_body n \<lparr>tokens = ts, current = c, reported = r\<rparr> =
         (Inl (RuntimeError t msg), \<lparr>tokens = ts, current = e, reported = r @ q\<rparr>)
     \<and> e \<le> k \<and> Suc k < length ts \<and> k - e < n \<and> type (ts ! k) = T_Semicolon
     \<and> list_all (\<lambda>i. type (ts ! i) \<noteq> T_Semicolon \<and> type (ts ! i) \<noteq> T_EndOfFile) [e..<k]
     \<and> list_all (\<lambda>i. \<not> sync_keyword (type (ts ! i))) [Suc e..<k]
     \<and> follows n ts (Suc k) (r @ q @ [(line t, msg)]) os"

text \<open>The list \<open>parse\<close> returns for these outcomes, the reports it makes, the cursor it
  ends with, and the number of reports made by the \<^verbatim>\<open>try\<close> blocks themselves.\<close>

fun nodes :: "outcome list \<Rightarrow> Stmt option list" where
  "nodes [] = []"
| "nodes (Parsed s c' q # os) = Some s # nodes os"
| "nodes (Skipped t msg e k q # os) = None # nodes os"

fun reports :: "outcome list \<Rightarrow> (int \<times> string) list" where
  "reports [] = []"
| "reports (Parsed s c' q # os) = q @ reports os"
| "reports (Skipped t msg e k q # os) = q @ (line t, msg) # reports os"

fun resumes :: "nat \<Rightarrow> outcome list \<Rightarrow> nat" where
  "resumes c [] = c"
| "resumes c (Parsed s c' q # os) = resumes c' os"
| "resumes c (Skipped t msg e k q # os) = resumes (Suc k) os"

fun early :: "outcome list \<Rightarrow> nat" where
  "early [] = 0"
| "early (Parsed s c' q # os) = length q + early os"
| "early (Skipped t msg e k q # os) = length q + early os"

section \<open>Properties of the value model\<close>

lemma isnan_quiet: "isnan 0x7FF8000000000000"
  by (simp add: isnan_def)

lemma double_eq_refl: "double_eq d d \<longleftrightarrow> \<not> isnan d"
  by (simp add: double_eq_def)

lemma variant_eq_refl: "variant_eq v v \<longleftrightarrow> \<not> (is_Number v \<and> isnan (un_Number v))"
  by (cases v) (simp_all add: double_eq_refl)

lemma variant_eq_index: "variant_eq a b \<Longrightarrow> index a = index b"
  by (cases a; cases b) simp_all

lemma isTruthy_001_agrees: "\<not> is_CallPtr obj \<Longrightarrow> isTruthy_001 obj = Inr (isTruthy obj)"
  by (cases obj) (simp_all add: isTruthy_001_def isTruthy_def)

lemma obj2str_001_agrees: "\<not> is_CallPtr obj \<Longrightarrow> obj2str_001 f obj = obj2str f obj"
  by (cases obj) (simp_all add: obj2str_001_def obj2str_def)

text \<open>
  C6. For every value \<open>obj\<close>, \<open>isTruthy obj\<close> is false exactly when \<open>obj\<close> is \<open>Null\<close> or
  \<open>Boolean False\<close>; every \<open>String\<close>, \<open>Number\<close> and \<open>CallPtr\<close> is truthy. \<open>isTruthy\<close> has no
  failing branch, so it returns on every alternative of the variant.
\<close>

theorem isTruthy_falsey_iff:
  "(isTruthy obj = False) = (obj = Null \<or> obj = Boolean False)
   \<and> isTruthy (String s) \<and> isTruthy (Number d) \<and> isTruthy (CallPtr p)"
  by (cases obj) (simp_all add: isTruthy_def)

text \<open>
  C7, as the code has it. \<open>isEqual v v\<close> holds for every value except a \<open>Number\<close> that holds a
  NaN, where \<^verbatim>\<open>==\<close> on doubles is false; \<open>isEqual Null Null\<close> holds, and \<open>isEqual Null x\<close> is
  false for every \<open>x\<close> other than \<open>Null\<close>.
\<close>

theorem isEqual_refl_except_nan:
  "(isEqual v v \<longleftrightarrow> \<not> (is_Number v \<and> isnan (un_Number v)))
   \<and> isEqual Null Null
   \<and> (x \<noteq> Null \<longrightarrow> \<not> isEqual Null x)"
  by (cases v; cases x) (simp_all add: isEqual_def double_eq_refl)

theorem isEqual_refl_except_nan_witness:
  "isEqual (Number 0x3FF0000000000000) (Number 0x3FF0000000000000)
   \<and> isEqual (String ''a'') (String ''a'')
   \<and> isEqual Null Null
   \<and> Boolean False \<noteq> Null \<and> \<not> isEqual Null (Boolean False)"
  using isEqual_refl_except_nan [of "Number 0x3FF0000000000000" "Boolean False"]
    isEqual_refl_except_nan [of "String ''a''" "Boolean False"]
  by (simp add: isnan_def)

text \<open>C7, as the claim states it, fails at a \<open>Number\<close> holding the quiet NaN
  \<^verbatim>\<open>0x7FF8000000000000\<close>: the value is not equal to itself.\<close>

theorem isEqual_nan_counterexample:
  "\<not> isEqual (Number 0x7FF8000000000000) (Number 0x7FF8000000000000)"
  by (simp add: isEqual_def double_eq_def isnan_def)

text \<open>
  C8. Two values that hold different alternatives of the variant are never equal:
  \<open>isEqual\<close> makes no conversion between alternatives.
\<close>

theorem isEqual_different_index:
  "index a \<noteq> index b \<Longrightarrow> \<not> isEqual a b"
  by (cases a; cases b) (simp_all add: isEqual_def)

theorem isEqual_different_index_witness:
  "index (Number 0) \<noteq> index (Boolean False) \<and> \<not> isEqual (Number 0) (Boolean False)
   \<and> index (Number 0x3FF0000000000000) \<noteq> index (String ''1'')
   \<and> \<not> isEqual (Number 0x3FF0000000000000) (String ''1'')"
  using isEqual_different_index [of "Number 0" "Boolean False"]
    isEqual_different_index [of "Number 0x3FF0000000000000" "String ''1''"]
  by simp

text \<open>
  C9. \<open>obj2str\<close> returns the contents of a \<open>String\<close>, \<^verbatim>\<open>"true"\<close> or \<^verbatim>\<open>"false"\<close> for a
  \<open>Boolean\<close>, \<^verbatim>\<open>"nil"\<close> for \<open>Null\<close> and \<^verbatim>\<open>"callable"\<close> for a \<open>CallPtr\<close>, and the throwing
  branch is reached by no value of the variant.
\<close>

theorem obj2str_dispatch:
  "obj2str f (String s) = Inr s
   \<and> obj2str f (Boolean True) = Inr ''true''
   \<and> obj2str f (Boolean False) = Inr ''false''
   \<and> obj2str f Null = Inr ''nil''
   \<and> obj2str f (CallPtr p) = Inr ''callable''
   \<and> obj2str f (Number d) = Inr (f d)
   \<and> obj2str f obj \<noteq> Inl e"
  by (cases obj) (simp_all add: obj2str_def)

section \<open>Reasoning about parser operations\<close>

subsection \<open>Rules\<close>

lemma valid_return: "(\<And>p. P p \<Longrightarrow> Q a p) \<Longrightarrow> valid P (return a) Q E"
  by (simp add: valid_def return_def)

lemma valid_throw: "(\<And>p. P p \<Longrightarrow> E e p) \<Longrightarrow> valid P (throw e) Q E"
  by (simp add: valid_def throw_def)

lemma valid_bind:
  assumes "valid P m R E" and "\<And>a. valid (R a) (f a) Q E"
  shows "valid P (bind m f) Q E"
  using assms unfolding valid_def bind_def
  by (fastforce split: prod.splits sum.splits)

lemma valid_try_catch:
  assumes "valid P m Q (\<lambda>e p. case e of RuntimeError t msg \<Rightarrow> H p | _ \<Rightarrow> E e p)"
    and "\<And>t msg. valid H (h t msg) Q E"
  shows "valid P (try_catch m h) Q E"
  using assms unfolding valid_def try_catch_def
  by (fastforce split: prod.splits sum.splits error.splits)

lemma valid_weaken:
  assumes "valid P' m Q' E'"
    and "\<And>p. P p \<Longrightarrow> P' p" and "\<And>a p. Q' a p \<Longrightarrow> Q a p" and "\<And>e p. E' e p \<Longrightarrow> E e p"
  shows "valid P m Q E"
  using assms unfolding valid_def
  by (fastforce split: prod.splits sum.splits)

lemma valid_if:
  assumes "b \<Longrightarrow> valid P m1 Q E" and "\<not> b \<Longrightarrow> valid P m2 Q E"
  shows "valid P (if b then m1 else m2) Q E"
  using assms by simp

lemma valid_if_split:
  assumes "b \<Longrightarrow> valid P1 m1 Q E" and "\<not> b \<Longrightarrow> valid P2 m2 Q E"
  shows "valid (\<lambda>p. if b then P1 p else P2 p) (if b then m1 else m2) Q E"
  using assms by simp

lemma valid_in_range:
  assumes "c < length ts \<Longrightarrow> valid (within ts c) m Q E"
  shows "valid (within ts c) m Q E"
  using assms unfolding valid_def within_def by auto

lemma within_mono: "within ts c' p \<Longrightarrow> c \<le> c' \<Longrightarrow> within ts c p"
  by (simp add: within_def)

lemma failing_mono:
  "failing ts c' enough' e p \<Longrightarrow> c \<le> c' \<Longrightarrow> (c' < length ts \<Longrightarrow> enough \<Longrightarrow> enough') \<Longrightarrow> failing ts c enough e p"
  by (auto simp: failing_def within_def)

lemma spec_use:
  assumes "spec ts m r n" and "c \<le> c'" and "d \<le> Suc c'"
    and "c' < length ts \<Longrightarrow> enough \<Longrightarrow> need ts c' r \<le> n"
  shows "valid (within ts c') m (\<lambda>_. within ts d) (failing ts c enough)"
  using assms unfolding spec_def valid_def
  by (fastforce split: prod.splits sum.splits intro: within_mono failing_mono)

lemma lspec_use:
  assumes "lspec ts m r n" and "c \<le> c'" and "d \<le> c'"
    and "c' < length ts \<Longrightarrow> enough \<Longrightarrow> need ts c' r \<le> n"
  shows "valid (within ts c') m (\<lambda>_. within ts d) (failing ts c enough)"
  using assms unfolding lspec_def valid_def
  by (fastforce split: prod.splits sum.splits intro: within_mono failing_mono)

subsection \<open>Primitives\<close>

lemma peek_valid: "valid (within ts c) peek (\<lambda>_. within ts c) E"
  by (simp add: valid_def peek_def within_def)

lemma isAtEnd_valid:
  "valid (within ts c) isAtEnd (\<lambda>e p. within ts c p \<and> (\<not> e \<longrightarrow> type (ts ! current p) \<noteq> T_EndOfFile)) E"
  by (auto simp: valid_def isAtEnd_def bind_def return_def peek_def within_def)

lemma previous_valid: "valid (within ts (Suc c)) previous (\<lambda>_. within ts (Suc c)) E"
  by (auto simp: valid_def previous_def within_def)

lemma check_valid: "valid (within ts c) (check ty) (\<lambda>_. within ts c) E"
  by (auto simp: valid_def check_def isAtEnd_def bind_def return_def peek_def within_def)

lemma Raft_error_valid: "valid (within ts c) (Raft_error ln msg) (\<lambda>_. within ts c) E"
  by (auto simp: valid_def Raft_error_def within_def)

lemma not_last:
  assumes "terminated ts" and "i < length ts" and "type (ts ! i) \<noteq> T_EndOfFile"
  shows "Suc i < length ts"
proof (rule ccontr)
  assume "\<not> Suc i < length ts"
  with assms(2) have "i = length ts - 1" by simp
  moreover from assms(1) have "last ts = ts ! (length ts - 1)"
    by (simp add: terminated_def last_conv_nth)
  ultimately have "type (ts ! i) = T_EndOfFile"
    using assms(1) by (simp add: terminated_def)
  with assms(3) show False by simp
qed

lemma check_rel:
  assumes "within ts c p"
  shows "check ty p = (Inr (fits ty p), p)"
  using assms
  by (auto simp: check_def isAtEnd_def bind_def return_def peek_def within_def fits_def)

lemma advance_not_at_end:
  assumes "terminated ts" and "within ts c p" and "type (ts ! current p) \<noteq> T_EndOfFile"
  shows "advance p = (Inr (ts ! current p), p\<lparr>current := Suc (current p)\<rparr>)"
  using assms not_last [of ts "current p"]
  by (auto simp: advance_def isAtEnd_def bind_def return_def peek_def within_def previous_def incr_current_def)

lemma advance_at_end:
  assumes "within ts c p" and "type (ts ! current p) = T_EndOfFile"
  shows "snd (advance p) = p"
  using assms
  by (auto simp: advance_def isAtEnd_def bind_def return_def peek_def within_def previous_def incr_current_def)

lemma match_valid:
  assumes "terminated ts"
  shows "valid (within ts c) (match tys) (\<lambda>m p. if m then within ts (Suc c) p else within ts c p) E"
proof (induction tys)
  case Nil
  show ?case by (simp add: valid_def return_def)
next
  case (Cons ty tys)
  show ?case
    unfolding valid_def
  proof (intro allI impI)
    fix p assume p: "within ts c p"
    show "case match (ty # tys) p of (Inr a, p') \<Rightarrow> if a then within ts (Suc c) p' else within ts c p'
          | (Inl e, p') \<Rightarrow> E e p'"
    proof (cases "fits ty p")
      case True
      with p have ne: "type (ts ! current p) \<noteq> T_EndOfFile" by (auto simp: fits_def within_def)
      from p have "current p < length ts" by (simp add: within_def)
      from not_last [OF assms this ne] advance_not_at_end [OF assms p ne] True p show ?thesis
        by (simp add: bind_def check_rel [OF p] return_def within_def)
    next
      case False
      with Cons p show ?thesis
        by (simp add: bind_def check_rel [OF p] valid_def)
    qed
  qed
qed

lemma consume_valid:
  assumes "terminated ts"
  shows "valid (within ts c) (consume ty msg) (\<lambda>_. within ts (Suc c)) (failing ts c enough)"
  unfolding valid_def
proof (intro allI impI)
  fix p assume p: "within ts c p"
  show "case consume ty msg p of (Inr a, p') \<Rightarrow> within ts (Suc c) p' | (Inl e, p') \<Rightarrow> failing ts c enough e p'"
  proof (cases "fits ty p")
    case True
    with p have ne: "type (ts ! current p) \<noteq> T_EndOfFile" by (auto simp: fits_def within_def)
    from p have "current p < length ts" by (simp add: within_def)
    from not_last [OF assms this ne] advance_not_at_end [OF assms p ne] True p show ?thesis
      by (simp add: consume_def bind_def check_rel [OF p] within_def)
  next
    case False
    with p show ?thesis
      by (auto simp: consume_def bind_def check_rel [OF p] peek_def throw_def failing_def within_def)
  qed
qed


subsection \<open>Expressions\<close>

lemma need_first: "r' < r \<Longrightarrow> need ts c r \<le> Suc n \<Longrightarrow> need ts c r' \<le> n"
  by (simp add: need_def)

lemma need_later: "c < c' \<Longrightarrow> c' < length ts \<Longrightarrow> r' < 20 \<Longrightarrow> need ts c r \<le> Suc n \<Longrightarrow> need ts c' r' \<le> n"
  by (simp add: need_def)

lemma spec_out_of_fuel: "spec ts (throw OutOfFuel) r 0"
  by (auto simp: spec_def valid_def throw_def failing_def within_def need_def)

lemma lspec_out_of_fuel: "lspec ts (throw OutOfFuel) r 0"
  by (auto simp: lspec_def valid_def throw_def failing_def within_def need_def)

lemma level_step:
  assumes y: "spec ts y ry n" and l: "\<And>e. lspec ts (l e) rl n"
    and r: "ry < r" "rl < 20"
  shows "spec ts (bind y l) r (Suc n)"
  unfolding spec_def
proof (intro allI)
  fix c
  show "valid (within ts c) (bind y l) (\<lambda>_. within ts (Suc c)) (failing ts c (need ts c r \<le> Suc n))"
  proof (rule valid_bind [where R = "\<lambda>_. within ts (Suc c)"])
    show "valid (within ts c) y (\<lambda>_. within ts (Suc c)) (failing ts c (need ts c r \<le> Suc n))"
      using r by (intro spec_use [OF y]) (auto simp: need_def)
    show "valid (within ts (Suc c)) (l e) (\<lambda>_. within ts (Suc c)) (failing ts c (need ts c r \<le> Suc n))" for e
      using r by (intro lspec_use [OF l]) (auto simp: need_def)
  qed
qed

lemma loop_step:
  assumes t: "terminated ts"
    and y: "spec ts y ry n" and l: "\<And>e. lspec ts (l e) r n"
    and r: "ry < 20" "r < 20"
  shows "lspec ts
    (bind (match tys) (\<lambda>m.
       if m then bind previous (\<lambda>op. bind y (\<lambda>right. l (mk expr op right))) else return expr))
    r (Suc n)"
  unfolding lspec_def
proof (intro allI)
  fix c
  let ?E = "failing ts c (need ts c r \<le> Suc n)"
  show "valid (within ts c)
    (bind (match tys) (\<lambda>m.
       if m then bind previous (\<lambda>op. bind y (\<lambda>right. l (mk expr op right))) else return expr))
    (\<lambda>_. within ts c) ?E"
  proof (rule valid_bind [OF match_valid [OF t]], rule valid_if_split)
    show "valid (within ts (Suc c)) (bind previous (\<lambda>op. bind y (\<lambda>right. l (mk expr op right))))
      (\<lambda>_. within ts c) ?E"
    proof (rule valid_bind [OF previous_valid], rule valid_bind [where R = "\<lambda>_. within ts (Suc c)"])
      show "valid (within ts (Suc c)) y (\<lambda>_. within ts (Suc c)) ?E"
        using r by (intro spec_use [OF y]) (auto simp: need_def)
      show "valid (within ts (Suc c)) (l e) (\<lambda>_. within ts c) ?E" for e
        using r by (intro lspec_use [OF l]) (auto simp: need_def)
    qed
    show "valid (within ts c) (return expr) (\<lambda>_. within ts c) ?E"
      by (rule valid_return)
  qed
qed

lemma expr_specs_0: "expr_specs ts 0"
  by (simp add: expr_specs_def spec_out_of_fuel lspec_out_of_fuel)

lemma expression_step:
  assumes "spec ts (assignment n) 8 n"
  shows "spec ts (expression (Suc n)) 9 (Suc n)"
  unfolding spec_def
proof (intro allI)
  fix c
  show "valid (within ts c) (expression (Suc n)) (\<lambda>_. within ts (Suc c)) (failing ts c (need ts c 9 \<le> Suc n))"
    by (simp, intro spec_use [OF assms]) (auto simp: need_def)
qed

lemma unary_step:
  assumes t: "terminated ts" and u: "spec ts (unary n) 1 n" and p: "spec ts (primary n) 0 n"
  shows "spec ts (unary (Suc n)) 1 (Suc n)"
  unfolding spec_def
proof (intro allI)
  fix c
  let ?E = "failing ts c (need ts c 1 \<le> Suc n)"
  show "valid (within ts c) (unary (Suc n)) (\<lambda>_. within ts (Suc c)) ?E"
    unfolding unary.simps
  proof (rule valid_bind [OF match_valid [OF t]], rule valid_if_split)
    show "valid (within ts (Suc c)) (bind previous (\<lambda>op. bind (unary n) (\<lambda>right. return (Unary op right))))
      (\<lambda>_. within ts (Suc c)) ?E"
    proof (rule valid_bind [OF previous_valid], rule valid_bind [where R = "\<lambda>_. within ts (Suc c)"])
      show "valid (within ts (Suc c)) (unary n) (\<lambda>_. within ts (Suc c)) ?E"
        by (intro spec_use [OF u]) (auto simp: need_def)
      show "valid (within ts (Suc c)) (return (Unary op right)) (\<lambda>_. within ts (Suc c)) ?E" for op right
        by (rule valid_return)
    qed
    show "valid (within ts c) (primary n) (\<lambda>_. within ts (Suc c)) ?E"
      by (intro spec_use [OF p]) (auto simp: need_def)
  qed
qed

lemma assignment_step:
  assumes t: "terminated ts" and a: "spec ts (assignment n) 8 n" and o: "spec ts (logicOr n) 7 n"
  shows "spec ts (assignment (Suc n)) 8 (Suc n)"
  unfolding spec_def
proof (intro allI)
  fix c
  let ?E = "failing ts c (need ts c 8 \<le> Suc n)"
  let ?Q = "\<lambda>_. within ts (Suc c)"
  show "valid (within ts c) (assignment (Suc n)) ?Q ?E"
    unfolding assignment.simps
  proof (rule valid_bind [where R = ?Q])
    show "valid (within ts c) (logicOr n) ?Q ?E"
      by (intro spec_use [OF o]) (auto simp: need_def)
  next
    fix expr
    show "valid (within ts (Suc c))
      (bind (match [T_Equal]) (\<lambda>m.
         if m then
           bind previous (\<lambda>equals.
           bind (assignment n) (\<lambda>val.
           case expr of
             Variable name \<Rightarrow> return (Assign name val)
           | _ \<Rightarrow> bind (Raft_error (line equals) ''Invalid assignment target'') (\<lambda>_. return expr)))
         else return expr)) ?Q ?E"
    proof (rule valid_bind [where R = ?Q])
      show "valid (within ts (Suc c)) (match [T_Equal]) ?Q ?E"
        by (rule valid_weaken [OF match_valid [OF t, of "Suc c"]]) (auto intro: within_mono split: if_splits)
    next
      fix m
      show "valid (within ts (Suc c))
        (if m then
           bind previous (\<lambda>equals.
           bind (assignment n) (\<lambda>val.
           case expr of
             Variable name \<Rightarrow> return (Assign name val)
           | _ \<Rightarrow> bind (Raft_error (line equals) ''Invalid assignment target'') (\<lambda>_. return expr)))
         else return expr) ?Q ?E"
      proof (rule valid_if)
        show "valid (within ts (Suc c)) (return expr) ?Q ?E"
          by (rule valid_return)
        show "valid (within ts (Suc c))
           (bind previous (\<lambda>equals.
            bind (assignment n) (\<lambda>val.
            case expr of
              Variable name \<Rightarrow> return (Assign name val)
            | _ \<Rightarrow> bind (Raft_error (line equals) ''Invalid assignment target'') (\<lambda>_. return expr)))) ?Q ?E"
        proof (rule valid_bind [OF previous_valid], rule valid_bind [where R = ?Q])
          show "valid (within ts (Suc c)) (assignment n) ?Q ?E"
            by (intro spec_use [OF a]) (auto simp: need_def)
          show "valid (within ts (Suc c))
            (case expr of
              Variable name \<Rightarrow> return (Assign name val)
            | _ \<Rightarrow> bind (Raft_error (line equals) ''Invalid assignment target'') (\<lambda>_. return expr)) ?Q ?E"
            for equals val
            by (cases expr) (auto intro: valid_return valid_bind [OF Raft_error_valid])
        qed
      qed
    qed
  qed
qed


lemma spec_next:
  assumes "spec ts m r n" and "c \<le> c'"
    and "c' < length ts \<Longrightarrow> enough \<Longrightarrow> need ts c' r \<le> n"
  shows "valid (within ts c') m (\<lambda>_. within ts (Suc c')) (failing ts c enough)"
  using assms by (intro spec_use) simp_all

lemma consume_use:
  assumes "terminated ts" and "c \<le> c'" and "d \<le> Suc c'"
  shows "valid (within ts c') (consume ty msg) (\<lambda>_. within ts d) (failing ts c enough)"
  using assms
  by (intro valid_weaken [OF consume_valid [OF assms(1), of c' ty msg enough]])
     (auto simp: within_def failing_def)

lemma consume_next:
  assumes "terminated ts" and "c \<le> c'"
  shows "valid (within ts c') (consume ty msg) (\<lambda>_. within ts (Suc c')) (failing ts c enough)"
  using assms by (intro consume_use) simp_all

lemma throw_RuntimeError:
  assumes "c \<le> c'"
  shows "valid (within ts c') (throw (RuntimeError t msg)) Q (failing ts c enough)"
  using assms by (intro valid_throw) (simp add: failing_def within_def)

lemma primary_step:
  assumes t: "terminated ts" and e: "spec ts (expression n) 9 n"
  shows "spec ts (primary (Suc n)) 0 (Suc n)"
  unfolding spec_def
proof (intro allI)
  fix c
  show "valid (within ts c) (primary (Suc n)) (\<lambda>_. within ts (Suc c)) (failing ts c (need ts c 0 \<le> Suc n))"
    unfolding primary.simps
    by (intro valid_bind [OF match_valid [OF t]] valid_if_split valid_return
          valid_bind [OF previous_valid] valid_bind [OF peek_valid] throw_RuntimeError
          valid_bind [OF spec_next [OF e]] valid_bind [OF consume_next [OF t]])
       (auto simp: need_def within_def)
qed

lemma expr_specs_Suc:
  assumes t: "terminated ts" and n: "expr_specs ts n"
  shows "expr_specs ts (Suc n)"
proof -
  from n have
    p: "spec ts (primary n) 0 n" and u: "spec ts (unary n) 1 n"
    and f: "spec ts (factor n) 2 n" and fl: "\<And>e. lspec ts (factor_loop n e) 0 n"
    and tr: "spec ts (term_rule n) 3 n" and tl: "\<And>e. lspec ts (term_loop n e) 0 n"
    and c: "spec ts (comparison n) 4 n" and cl: "\<And>e. lspec ts (comparison_loop n e) 0 n"
    and q: "spec ts (equality n) 5 n" and ql: "\<And>e. lspec ts (equality_loop n e) 0 n"
    and a: "spec ts (logicAnd n) 6 n" and al: "\<And>e. lspec ts (logicAnd_loop n e) 0 n"
    and o: "spec ts (logicOr n) 7 n" and ol: "\<And>e. lspec ts (logicOr_loop n e) 0 n"
    and g: "spec ts (assignment n) 8 n" and x: "spec ts (expression n) 9 n"
    by (simp_all add: expr_specs_def)
  have "spec ts (primary (Suc n)) 0 (Suc n)"
    by (rule primary_step [OF t x])
  moreover have "spec ts (unary (Suc n)) 1 (Suc n)"
    by (rule unary_step [OF t u p])
  moreover have "spec ts (factor (Suc n)) 2 (Suc n)"
    unfolding factor.simps by (rule level_step [OF u fl]) simp_all
  moreover have "lspec ts (factor_loop (Suc n) e) 0 (Suc n)" for e
    unfolding factor_loop.simps by (rule loop_step [OF t u fl]) simp_all
  moreover have "spec ts (term_rule (Suc n)) 3 (Suc n)"
    unfolding term_rule.simps by (rule level_step [OF f tl]) simp_all
  moreover have "lspec ts (term_loop (Suc n) e) 0 (Suc n)" for e
    unfolding term_loop.simps by (rule loop_step [OF t f tl]) simp_all
  moreover have "spec ts (comparison (Suc n)) 4 (Suc n)"
    unfolding comparison.simps by (rule level_step [OF tr cl]) simp_all
  moreover have "lspec ts (comparison_loop (Suc n) e) 0 (Suc n)" for e
    unfolding comparison_loop.simps by (rule loop_step [OF t tr cl]) simp_all
  moreover have "spec ts (equality (Suc n)) 5 (Suc n)"
    unfolding equality.simps by (rule level_step [OF c ql]) simp_all
  moreover have "lspec ts (equality_loop (Suc n) e) 0 (Suc n)" for e
    unfolding equality_loop.simps by (rule loop_step [OF t c ql]) simp_all
  moreover have "spec ts (logicAnd (Suc n)) 6 (Suc n)"
    unfolding logicAnd.simps by (rule level_step [OF q al]) simp_all
  moreover have "lspec ts (logicAnd_loop (Suc n) e) 0 (Suc n)" for e
    unfolding logicAnd_loop.simps by (rule loop_step [OF t q al]) simp_all
  moreover have "spec ts (logicOr (Suc n)) 7 (Suc n)"
    unfolding logicOr.simps by (rule level_step [OF a ol]) simp_all
  moreover have "lspec ts (logicOr_loop (Suc n) e) 0 (Suc n)" for e
    unfolding logicOr_loop.simps by (rule loop_step [OF t a ol]) simp_all
  moreover have "spec ts (assignment (Suc n)) 8 (Suc n)"
    by (rule assignment_step [OF t g o])
  moreover have "spec ts (expression (Suc n)) 9 (Suc n)"
    by (rule expression_step [OF g])
  ultimately show ?thesis
    unfolding expr_specs_def by blast
qed

lemma expr_specs_all: "terminated ts \<Longrightarrow> expr_specs ts n"
  by (induction n) (simp_all add: expr_specs_0 expr_specs_Suc)

subsection \<open>Statements\<close>

lemma bind_assoc: "bind (bind m g) f = bind m (\<lambda>x. bind (g x) f)"
  by (auto simp: bind_def fun_eq_iff split: prod.splits sum.splits)

lemma bind_return: "bind (return a) f = f a"
  by (auto simp: bind_def return_def fun_eq_iff)

lemma valid_bind_bind:
  "valid P (bind m (\<lambda>x. bind (g x) f)) Q E \<Longrightarrow> valid P (bind (bind m g) f) Q E"
  by (simp add: bind_assoc)

lemma valid_bind_return: "valid P (f a) Q E \<Longrightarrow> valid P (bind (return a) f) Q E"
  by (simp add: bind_return)

lemma valid_bind_if:
  assumes "b \<Longrightarrow> valid P (bind m1 f) Q E" and "\<not> b \<Longrightarrow> valid P (bind m2 f) Q E"
  shows "valid P (bind (if b then m1 else m2) f) Q E"
  using assms by simp

lemmas valid_structure = valid_bind_bind valid_bind_return valid_bind_if valid_if valid_return

lemma match_flat:
  assumes "terminated ts"
  shows "valid (within ts c) (match tys) (\<lambda>_. within ts c) E"
  by (rule valid_weaken [OF match_valid [OF assms, of c tys E]])
     (auto simp: within_def split: if_splits)

lemma consume_flat:
  assumes "terminated ts" and "c \<le> c'"
  shows "valid (within ts c') (consume ty msg) (\<lambda>_. within ts c') (failing ts c enough)"
  using assms by (intro consume_use) simp_all

lemma spec_flat:
  assumes "spec ts m r n" and "c \<le> c'"
    and "c' < length ts \<Longrightarrow> enough \<Longrightarrow> need ts c' r \<le> n"
  shows "valid (within ts c') m (\<lambda>_. within ts c') (failing ts c enough)"
  using assms by (intro spec_use) simp_all

lemma lspec_flat:
  assumes "lspec ts m r n" and "c \<le> c'"
    and "c' < length ts \<Longrightarrow> enough \<Longrightarrow> need ts c' r \<le> n"
  shows "valid (within ts c') m (\<lambda>_. within ts c') (failing ts c enough)"
  using assms by (intro lspec_use) simp_all

lemma expression_spec: "terminated ts \<Longrightarrow> spec ts (expression n) 9 n"
  using expr_specs_all [of ts n] by (simp add: expr_specs_def)

lemma expressionStatement_spec:
  assumes t: "terminated ts"
  shows "spec ts (expressionStatement n) 9 n"
  unfolding spec_def expressionStatement_def
  by (intro allI valid_bind [OF spec_next [OF expression_spec [OF t]]]
        valid_bind [OF consume_flat [OF t]] valid_return)
     (auto simp: need_def)

lemma printStatement_spec:
  assumes t: "terminated ts"
  shows "spec ts (printStatement n) 9 n"
  unfolding spec_def printStatement_def
  by (intro allI valid_bind [OF spec_next [OF expression_spec [OF t]]]
        valid_bind [OF consume_flat [OF t]] valid_return)
     (auto simp: need_def)

lemma varDeclaration_spec:
  assumes t: "terminated ts"
  shows "spec ts (varDeclaration n) 0 n"
  unfolding spec_def varDeclaration_def
  by (intro allI valid_bind [OF consume_next [OF t]] valid_bind [OF match_flat [OF t]]
        valid_bind [OF spec_flat [OF expression_spec [OF t]]] valid_structure
        valid_bind [OF consume_flat [OF t]])
     (auto simp: need_def)

lemma advance_valid:
  assumes t: "terminated ts" and k: "type (ts ! k) \<noteq> T_EndOfFile"
  shows "valid (within ts k) advance (\<lambda>_. within ts (Suc k)) E"
  unfolding valid_def
proof (intro allI impI)
  fix p assume p: "within ts k p"
  show "case advance p of (Inr a, p') \<Rightarrow> within ts (Suc k) p' | (Inl e, p') \<Rightarrow> E e p'"
  proof (cases "type (ts ! current p) = T_EndOfFile")
    case True
    with k p have "k < current p"
      by (cases "current p = k") (auto simp: within_def)
    with True p show ?thesis
      by (auto simp: advance_def isAtEnd_def bind_def return_def peek_def previous_def within_def)
  next
    case False
    from p have "current p < length ts" by (simp add: within_def)
    from not_last [OF t this False] advance_not_at_end [OF t p False] p show ?thesis
      by (simp add: within_def)
  qed
qed

lemma synchronize_loop_valid:
  assumes t: "terminated ts"
  shows "valid (within ts (Suc c)) (synchronize_loop n) (\<lambda>_. within ts (Suc c))
           (failing ts (Suc c) (need ts (Suc c) 0 \<le> n))"
proof (induction n arbitrary: c)
  case 0
  show ?case
    by (auto simp: valid_def throw_def failing_def within_def need_def)
next
  case (Suc n)
  show ?case
    unfolding valid_def
  proof (intro allI impI)
    fix p assume p: "within ts (Suc c) p"
    let ?goal = "case synchronize_loop (Suc n) p of
        (Inr a, p') \<Rightarrow> within ts (Suc c) p'
      | (Inl e, p') \<Rightarrow> failing ts (Suc c) (need ts (Suc c) 0 \<le> Suc n) e p'"
    show ?goal
    proof (cases "type (ts ! current p) = T_EndOfFile")
      case True
      with p show ?thesis
        by (auto simp: isAtEnd_def bind_def return_def peek_def within_def)
    next
      case False
      from p have lt: "current p < length ts" by (simp add: within_def)
      note adv = advance_not_at_end [OF t p False]
      let ?p' = "p\<lparr>current := Suc (current p)\<rparr>"
      from p not_last [OF t lt False] have p': "within ts (Suc (current p)) ?p'"
        by (simp add: within_def)
      from Suc [of "current p"] p' have
        ih: "case synchronize_loop n ?p' of
               (Inr a, q) \<Rightarrow> within ts (Suc (current p)) q
             | (Inl e, q) \<Rightarrow> failing ts (Suc (current p)) (need ts (Suc (current p)) 0 \<le> n) e q"
        by (simp add: valid_def)
      have rec: "case synchronize_loop n ?p' of
               (Inr a, q) \<Rightarrow> within ts (Suc c) q
             | (Inl e, q) \<Rightarrow> failing ts (Suc c) (need ts (Suc c) 0 \<le> Suc n) e q"
        using ih p
        by (auto simp: failing_def within_def need_def split: prod.splits sum.splits)
      from False p adv rec show ?thesis
        by (auto simp: isAtEnd_def bind_def return_def peek_def previous_def within_def)
    qed
  qed
qed

lemma synchronize_valid:
  assumes t: "terminated ts" and k: "type (ts ! k) \<noteq> T_EndOfFile"
  shows "valid (within ts k) (synchronize n) (\<lambda>_. within ts (Suc k)) (failing ts k (need ts k 0 \<le> Suc n))"
  unfolding synchronize_def
proof (rule valid_bind [OF advance_valid [OF t k]])
  show "valid (within ts (Suc k)) (synchronize_loop n) (\<lambda>_. within ts (Suc k))
     (failing ts k (need ts k 0 \<le> Suc n))" for a
    by (rule valid_weaken [OF synchronize_loop_valid [OF t, of k n]])
       (auto simp: failing_def within_def need_def)
qed

lemma valid_try_catch_failing:
  assumes "valid P m Q (failing ts k enough)"
    and "\<And>t msg. valid (within ts k) (h t msg) Q (failing ts k enough)"
  shows "valid P (try_catch m h) Q (failing ts k enough)"
proof (rule valid_try_catch [where H = "within ts k"])
  show "valid P m Q (\<lambda>e p. case e of RuntimeError t msg \<Rightarrow> within ts k p | _ \<Rightarrow> failing ts k enough e p)"
    by (rule valid_weaken [OF assms(1)]) (auto simp: failing_def split: error.splits)
qed (rule assms(2))

lemma decl_spec_use:
  assumes d: "decl_spec ts n" and e: "enough \<Longrightarrow> need ts c 11 \<le> n"
  shows "valid (\<lambda>p. within ts c p \<and> type (ts ! current p) \<noteq> T_EndOfFile) (declaration_rule n)
           (\<lambda>_. within ts (Suc c)) (failing ts c enough)"
  unfolding valid_def
proof (intro allI impI)
  fix p assume p: "within ts c p \<and> type (ts ! current p) \<noteq> T_EndOfFile"
  then have "within ts (current p) p" by (simp add: within_def)
  with d p have "case declaration_rule n p of
      (Inr a, q) \<Rightarrow> within ts (Suc (current p)) q
    | (Inl e, q) \<Rightarrow> failing ts (current p) (need ts (current p) 11 \<le> n) e q"
    by (simp add: decl_spec_def valid_def)
  with p e show "case declaration_rule n p of
      (Inr a, q) \<Rightarrow> within ts (Suc c) q | (Inl e, q) \<Rightarrow> failing ts c enough e q"
    by (auto simp: failing_def within_def need_def split: prod.splits sum.splits)
qed

lemma declaration_step:
  assumes t: "terminated ts" and s: "spec ts (statement n) 10 n"
  shows "decl_spec ts (Suc n)"
  unfolding decl_spec_def
proof (intro allI impI)
  fix k assume k: "type (ts ! k) \<noteq> T_EndOfFile"
  let ?E = "failing ts k (need ts k 11 \<le> Suc n)"
  show "valid (within ts k) (declaration_rule (Suc n)) (\<lambda>_. within ts (Suc k)) ?E"
    unfolding declaration_rule.simps
  proof (rule valid_try_catch_failing)
    show "valid (within ts k)
      (bind (match [T_Var]) (\<lambda>m.
         if m then bind (varDeclaration n) (\<lambda>s. return (Some s))
         else bind (statement n) (\<lambda>s. return (Some s))))
      (\<lambda>_. within ts (Suc k)) ?E"
      by (intro valid_bind [OF match_valid [OF t]] valid_if_split valid_structure
            valid_bind [OF spec_flat [OF varDeclaration_spec [OF t]]]
            valid_bind [OF spec_next [OF s]])
         (auto simp: need_def)
    show "valid (within ts k)
      (bind (Raft_error (line tok) message) (\<lambda>_. bind (synchronize n) (\<lambda>_. return None)))
      (\<lambda>_. within ts (Suc k)) ?E" for tok message
      by (intro valid_bind [OF Raft_error_valid] valid_structure
            valid_bind [OF valid_weaken [OF synchronize_valid [OF t k, of n]]])
         (auto simp: need_def failing_def)
  qed
qed

lemma statement_step:
  assumes t: "terminated ts"
    and f: "spec ts (forStatement n) 0 n" and i: "spec ts (ifStatement n) 0 n"
    and w: "spec ts (whileStatement n) 0 n" and b: "spec ts (block n) 13 n"
  shows "spec ts (statement (Suc n)) 10 (Suc n)"
  unfolding spec_def statement.simps
  by (intro allI valid_bind [OF match_valid [OF t]] valid_if_split valid_structure
        spec_flat [OF f] spec_flat [OF i] spec_flat [OF w]
        spec_flat [OF printStatement_spec [OF t]]
        valid_bind [OF spec_flat [OF b]]
        spec_next [OF expressionStatement_spec [OF t]])
     (auto simp: need_def)

lemma forStatement_step:
  assumes t: "terminated ts" and s: "spec ts (statement n) 10 n"
  shows "spec ts (forStatement (Suc n)) 0 (Suc n)"
  unfolding spec_def forStatement.simps
  by (intro allI valid_bind [OF consume_next [OF t]] valid_bind [OF match_flat [OF t]]
        valid_bind [OF check_valid] valid_structure
        valid_bind [OF spec_flat [OF varDeclaration_spec [OF t]]]
        valid_bind [OF spec_flat [OF expressionStatement_spec [OF t]]]
        valid_bind [OF spec_flat [OF expression_spec [OF t]]]
        valid_bind [OF consume_flat [OF t]]
        valid_bind [OF spec_flat [OF s]])
     (simp_all add: need_def within_def)

lemma ifStatement_step:
  assumes t: "terminated ts" and s: "spec ts (statement n) 10 n"
  shows "spec ts (ifStatement (Suc n)) 0 (Suc n)"
  unfolding spec_def ifStatement.simps
  by (intro allI valid_bind [OF consume_next [OF t]] valid_bind [OF match_flat [OF t]]
        valid_structure
        valid_bind [OF spec_flat [OF expression_spec [OF t]]]
        valid_bind [OF consume_flat [OF t]]
        valid_bind [OF spec_flat [OF s]])
     (auto simp: need_def)

lemma whileStatement_step:
  assumes t: "terminated ts" and s: "spec ts (statement n) 10 n"
  shows "spec ts (whileStatement (Suc n)) 0 (Suc n)"
  unfolding spec_def whileStatement.simps
  by (intro allI valid_bind [OF consume_next [OF t]] valid_structure
        valid_bind [OF spec_flat [OF expression_spec [OF t]]]
        valid_bind [OF consume_flat [OF t]]
        valid_bind [OF spec_flat [OF s]])
     (auto simp: need_def)

lemma block_step:
  assumes t: "terminated ts" and l: "\<And>ss. lspec ts (block_loop n ss) 12 n"
  shows "spec ts (block (Suc n)) 13 (Suc n)"
  unfolding spec_def block.simps
  by (intro allI valid_bind [OF lspec_flat [OF l]] valid_bind [OF consume_next [OF t]]
        valid_structure)
     (auto simp: need_def)

lemma block_loop_step:
  assumes t: "terminated ts" and d: "decl_spec ts n"
    and l: "\<And>ss. lspec ts (block_loop n ss) 12 n"
  shows "lspec ts (block_loop (Suc n) ss) 12 (Suc n)"
  unfolding lspec_def block_loop.simps
proof (intro allI valid_bind [OF check_valid] valid_structure valid_bind [OF isAtEnd_valid])
  fix c and a e :: bool
  assume "\<not> a" "\<not> e"
  let ?E = "failing ts c (need ts c 12 \<le> Suc n)"
  have "valid (\<lambda>p. within ts c p \<and> type (ts ! current p) \<noteq> T_EndOfFile)
     (bind (declaration_rule n) (\<lambda>d. block_loop n (ss @ [d]))) (\<lambda>_. within ts c) ?E"
    by (intro valid_bind [OF decl_spec_use [OF d]] lspec_use [OF l])
       (auto simp: need_def)
  with \<open>\<not> e\<close> show "valid (\<lambda>p. within ts c p \<and> (\<not> e \<longrightarrow> type (ts ! current p) \<noteq> T_EndOfFile))
     (bind (declaration_rule n) (\<lambda>d. block_loop n (ss @ [d]))) (\<lambda>_. within ts c) ?E"
    by simp
qed (auto simp: within_def)

lemma stmt_specs_0: "stmt_specs ts 0"
  by (auto simp: stmt_specs_def decl_spec_def spec_out_of_fuel lspec_out_of_fuel
      valid_def throw_def failing_def within_def need_def)

lemma stmt_specs_Suc:
  assumes t: "terminated ts" and n: "stmt_specs ts n"
  shows "stmt_specs ts (Suc n)"
proof -
  from n have d: "decl_spec ts n" and s: "spec ts (statement n) 10 n"
    and f: "spec ts (forStatement n) 0 n" and i: "spec ts (ifStatement n) 0 n"
    and w: "spec ts (whileStatement n) 0 n" and b: "spec ts (block n) 13 n"
    and l: "\<And>ss. lspec ts (block_loop n ss) 12 n"
    by (simp_all add: stmt_specs_def)
  show ?thesis
    unfolding stmt_specs_def
    using declaration_step [OF t s] statement_step [OF t f i w b] forStatement_step [OF t s]
      ifStatement_step [OF t s] whileStatement_step [OF t s] block_step [OF t l]
      block_loop_step [OF t d l]
    by blast
qed

lemma stmt_specs_all: "terminated ts \<Longrightarrow> stmt_specs ts n"
  by (induction n) (simp_all add: stmt_specs_0 stmt_specs_Suc)

lemma synchronize_loop_no_RuntimeError:
  "synchronize_loop n p \<noteq> (Inl (RuntimeError t m), p')"
  by (induction n arbitrary: p)
     (auto simp: bind_def return_def throw_def isAtEnd_def peek_def previous_def advance_def
        incr_current_def split: if_splits prod.splits sum.splits)

lemma synchronize_no_RuntimeError: "synchronize n p \<noteq> (Inl (RuntimeError t m), p')"
  using synchronize_loop_no_RuntimeError
  by (auto simp: synchronize_def bind_def return_def throw_def isAtEnd_def peek_def previous_def
        advance_def incr_current_def split: if_splits prod.splits sum.splits)

lemma declaration_rule_no_RuntimeError:
  "declaration_rule n p \<noteq> (Inl (RuntimeError t m), p')"
proof (cases n)
  case 0
  then show ?thesis by (simp add: throw_def)
next
  case (Suc k)
  then show ?thesis
    using synchronize_no_RuntimeError
    by (auto simp: try_catch_def bind_def [of "Raft_error _ _"] bind_def [of "synchronize _"]
          return_def Raft_error_def split: prod.splits sum.splits error.splits)
qed

lemma parse_no_RuntimeError: "parse n p \<noteq> (Inl (RuntimeError t m), p')"
  using synchronize_no_RuntimeError
  by (auto simp: parse_def bind_def return_def Raft_error_def
        split: prod.splits sum.splits option.splits error.splits)

lemma parse_loop_valid:
  assumes t: "terminated ts"
  shows "within ts c p \<Longrightarrow> parse_loop n ss p = ((eo, ss'), p') \<Longrightarrow>
     within ts c p' \<and> eo \<noteq> Some OutOfRange \<and> (\<forall>t m. eo \<noteq> Some (RuntimeError t m))
     \<and> (need ts c 12 \<le> n \<longrightarrow> eo = None)
     \<and> (eo = None \<longrightarrow> type (ts ! current p') = T_EndOfFile)"
proof (induction n arbitrary: c ss p)
  case 0
  then show ?case by (auto simp: within_def need_def)
next
  case (Suc n)
  from Suc.prems(1) have at_end: "isAtEnd p = (Inr (type (ts ! current p) = T_EndOfFile), p)"
    by (auto simp: isAtEnd_def bind_def return_def peek_def within_def)
  show ?case
  proof (cases "type (ts ! current p) = T_EndOfFile")
    case True
    with Suc.prems at_end show ?thesis by auto
  next
    case False
    from stmt_specs_all [OF t, of n] have d: "decl_spec ts n"
      by (simp add: stmt_specs_def)
    have "valid (\<lambda>p. within ts c p \<and> type (ts ! current p) \<noteq> T_EndOfFile) (declaration_rule n)
           (\<lambda>_. within ts (Suc c)) (failing ts c (need ts c 12 \<le> Suc n))"
      by (rule decl_spec_use [OF d]) (simp add: need_def)
    with Suc.prems(1) False
    have decl: "case declaration_rule n p of
        (Inr a, q) \<Rightarrow> within ts (Suc c) q
      | (Inl e, q) \<Rightarrow> failing ts c (need ts c 12 \<le> Suc n) e q"
      by (simp add: valid_def)
    show ?thesis
    proof (cases "declaration_rule n p")
      case (Pair r q)
      show ?thesis
      proof (cases r)
        case (Inl e)
        with Pair decl declaration_rule_no_RuntimeError [of n p _ _ q] Suc.prems at_end False
        show ?thesis
          by (cases e) (auto simp: failing_def)
      next
        case (Inr d)
        with Pair decl have q: "within ts (Suc c) q" by simp
        from Inr Pair Suc.prems at_end False
        have "parse_loop n (ss @ [d]) q = ((eo, ss'), p')" by simp
        from Suc.IH [OF q this] q show ?thesis
          by (auto simp: within_def need_def)
      qed
    qed
  qed
qed

lemma Parser_new_within: "terminated ts \<Longrightarrow> within ts 0 (Parser_new ts)"
  by (simp add: terminated_def within_def Parser_new_def)

lemma parse_within:
  assumes t: "terminated ts" and r: "parse n (Parser_new ts) = (r, p')"
  shows "r \<noteq> Inl OutOfRange \<and> tokens p' = ts \<and> current p' < length ts"
proof (cases "parse_loop n [] (Parser_new ts)")
  case (Pair x q)
  obtain eo ss where x: "x = (eo, ss)" by (cases x)
  from parse_loop_valid [OF t Parser_new_within [OF t] Pair [unfolded x]]
  have q: "within ts 0 q" "eo \<noteq> Some OutOfRange" "\<And>t m. eo \<noteq> Some (RuntimeError t m)"
    by auto
  show ?thesis
  proof (cases eo)
    case None
    with r Pair x q show ?thesis by (auto simp: parse_def within_def)
  next
    case (Some e)
    with r Pair x q show ?thesis by (cases e) (auto simp: parse_def within_def)
  qed
qed

lemma parse_returns:
  assumes t: "terminated ts" and n: "20 * length ts + 12 \<le> n"
  shows "\<exists>statements p'. parse n (Parser_new ts) = (Inr statements, p')
     \<and> tokens p' = ts \<and> current p' < length ts \<and> type (ts ! current p') = T_EndOfFile"
proof (cases "parse_loop n [] (Parser_new ts)")
  case (Pair x q)
  obtain eo ss where x: "x = (eo, ss)" by (cases x)
  from n have "need ts 0 12 \<le> n" by (simp add: need_def)
  with parse_loop_valid [OF t Parser_new_within [OF t] Pair [unfolded x]]
  have "within ts 0 q" "eo = None" "type (ts ! current q) = T_EndOfFile"
    by auto
  with Pair x show ?thesis by (simp add: parse_def within_def)
qed

subsection \<open>Reports are never taken back\<close>

lemma quiet_return: "quiet (return a)"
  by (simp add: quiet_def valid_def return_def)

lemma quiet_throw: "quiet (throw e)"
  by (simp add: quiet_def valid_def throw_def)

lemma quiet_bind: "quiet m \<Longrightarrow> (\<And>a. quiet (f a)) \<Longrightarrow> quiet (bind m f)"
  unfolding quiet_def by (blast intro: valid_bind)

lemma quiet_if: "(b \<Longrightarrow> quiet m1) \<Longrightarrow> (\<not> b \<Longrightarrow> quiet m2) \<Longrightarrow> quiet (if b then m1 else m2)"
  by simp

lemma quiet_try_catch:
  assumes "quiet m" and "\<And>t msg. quiet (h t msg)"
  shows "quiet (try_catch m h)"
  unfolding quiet_def
proof (intro allI)
  fix k
  show "valid (keeps k) (try_catch m h) (\<lambda>_. keeps k) (\<lambda>_. keeps k)"
  proof (rule valid_try_catch [where H = "keeps k"])
    from assms(1) show "valid (keeps k) m (\<lambda>_. keeps k)
        (\<lambda>e p. case e of RuntimeError t msg \<Rightarrow> keeps k p | _ \<Rightarrow> keeps k p)"
      by (auto simp: quiet_def valid_def split: prod.splits sum.splits error.splits)
    from assms(2) show "valid (keeps k) (h t msg) (\<lambda>_. keeps k) (\<lambda>_. keeps k)" for t msg
      by (simp add: quiet_def)
  qed
qed

lemma quiet_peek: "quiet peek"
  by (simp add: quiet_def valid_def peek_def)

lemma quiet_previous: "quiet previous"
  by (simp add: quiet_def valid_def previous_def)

lemma quiet_incr_current: "quiet incr_current"
  by (simp add: quiet_def valid_def incr_current_def keeps_def)

lemma quiet_Raft_error: "quiet (Raft_error ln msg)"
  by (simp add: quiet_def valid_def Raft_error_def keeps_def)

lemmas quiet_structure = quiet_bind quiet_if quiet_return quiet_throw quiet_peek quiet_previous
  quiet_incr_current quiet_Raft_error

lemma quiet_isAtEnd: "quiet isAtEnd"
  unfolding isAtEnd_def by (intro quiet_structure)

lemma quiet_advance: "quiet advance"
  unfolding advance_def by (intro quiet_structure quiet_isAtEnd)

lemma quiet_check: "quiet (check ty)"
  unfolding check_def by (intro quiet_structure quiet_isAtEnd)

lemma quiet_consume: "quiet (consume ty msg)"
  unfolding consume_def by (intro quiet_structure quiet_check quiet_advance)

lemma quiet_match: "quiet (match tys)"
  by (induction tys) (auto intro!: quiet_structure quiet_check quiet_advance)

lemmas quiet_primitives = quiet_structure quiet_isAtEnd quiet_advance quiet_check quiet_consume
  quiet_match

lemma expr_quiet_0: "expr_quiet 0"
  by (simp add: expr_quiet_def quiet_throw)

lemma quiet_assignment_step:
  assumes "quiet (logicOr n)" and "quiet (assignment n)"
  shows "quiet (assignment (Suc n))"
  unfolding assignment.simps
proof (intro quiet_primitives assms)
  fix expr :: Expr and m :: bool and equals :: Token and val :: Expr
  show "quiet (case expr of
      Variable name \<Rightarrow> return (Assign name val)
    | _ \<Rightarrow> bind (Raft_error (line equals) ''Invalid assignment target'') (\<lambda>_. return expr))"
    by (cases expr) (auto intro!: quiet_structure)
qed

lemma expr_quiet_Suc:
  assumes "expr_quiet n"
  shows "expr_quiet (Suc n)"
proof -
  from assms have
    p: "quiet (primary n)" and u: "quiet (unary n)"
    and f: "quiet (factor n)" and fl: "\<And>e. quiet (factor_loop n e)"
    and tr: "quiet (term_rule n)" and tl: "\<And>e. quiet (term_loop n e)"
    and c: "quiet (comparison n)" and cl: "\<And>e. quiet (comparison_loop n e)"
    and q: "quiet (equality n)" and ql: "\<And>e. quiet (equality_loop n e)"
    and a: "quiet (logicAnd n)" and al: "\<And>e. quiet (logicAnd_loop n e)"
    and o: "quiet (logicOr n)" and ol: "\<And>e. quiet (logicOr_loop n e)"
    and g: "quiet (assignment n)" and x: "quiet (expression n)"
    by (simp_all add: expr_quiet_def)
  have "quiet (primary (Suc n))"
    unfolding primary.simps by (intro quiet_primitives x)
  moreover have "quiet (unary (Suc n))"
    unfolding unary.simps by (intro quiet_primitives u p)
  moreover have "quiet (factor (Suc n))"
    unfolding factor.simps by (intro quiet_primitives u fl)
  moreover have "quiet (factor_loop (Suc n) e)" for e
    unfolding factor_loop.simps by (intro quiet_primitives u fl)
  moreover have "quiet (term_rule (Suc n))"
    unfolding term_rule.simps by (intro quiet_primitives f tl)
  moreover have "quiet (term_loop (Suc n) e)" for e
    unfolding term_loop.simps by (intro quiet_primitives f tl)
  moreover have "quiet (comparison (Suc n))"
    unfolding comparison.simps by (intro quiet_primitives tr cl)
  moreover have "quiet (comparison_loop (Suc n) e)" for e
    unfolding comparison_loop.simps by (intro quiet_primitives tr cl)
  moreover have "quiet (equality (Suc n))"
    unfolding equality.simps by (intro quiet_primitives c ql)
  moreover have "quiet (equality_loop (Suc n) e)" for e
    unfolding equality_loop.simps by (intro quiet_primitives c ql)
  moreover have "quiet (logicAnd (Suc n))"
    unfolding logicAnd.simps by (intro quiet_primitives q al)
  moreover have "quiet (logicAnd_loop (Suc n) e)" for e
    unfolding logicAnd_loop.simps by (intro quiet_primitives q al)
  moreover have "quiet (logicOr (Suc n))"
    unfolding logicOr.simps by (intro quiet_primitives a ol)
  moreover have "quiet (logicOr_loop (Suc n) e)" for e
    unfolding logicOr_loop.simps by (intro quiet_primitives a ol)
  moreover have "quiet (assignment (Suc n))"
    by (rule quiet_assignment_step [OF o g])
  moreover have "quiet (expression (Suc n))"
    by (simp add: g)
  ultimately show ?thesis
    unfolding expr_quiet_def by blast
qed

lemma expr_quiet_all: "expr_quiet n"
  by (induction n) (simp_all add: expr_quiet_0 expr_quiet_Suc)

lemma quiet_expression: "quiet (expression n)"
  using expr_quiet_all [of n] by (simp add: expr_quiet_def)

lemma quiet_synchronize_loop: "quiet (synchronize_loop n)"
  by (induction n) (auto intro!: quiet_primitives)

lemma quiet_synchronize: "quiet (synchronize n)"
  unfolding synchronize_def by (intro quiet_primitives quiet_synchronize_loop)

lemma quiet_varDeclaration: "quiet (varDeclaration n)"
  unfolding varDeclaration_def by (intro quiet_primitives quiet_expression)

lemma quiet_printStatement: "quiet (printStatement n)"
  unfolding printStatement_def by (intro quiet_primitives quiet_expression)

lemma quiet_expressionStatement: "quiet (expressionStatement n)"
  unfolding expressionStatement_def by (intro quiet_primitives quiet_expression)

lemmas quiet_simple = quiet_primitives quiet_expression quiet_synchronize quiet_varDeclaration
  quiet_printStatement quiet_expressionStatement quiet_try_catch

lemma stmt_quiet_0: "stmt_quiet 0"
  by (simp add: stmt_quiet_def quiet_throw)

lemma stmt_quiet_Suc:
  assumes "stmt_quiet n"
  shows "stmt_quiet (Suc n)"
proof -
  from assms have d: "quiet (declaration_rule n)" and s: "quiet (statement n)"
    and f: "quiet (forStatement n)" and i: "quiet (ifStatement n)"
    and w: "quiet (whileStatement n)" and b: "quiet (block n)"
    and l: "\<And>ss. quiet (block_loop n ss)"
    by (simp_all add: stmt_quiet_def)
  have "quiet (declaration_rule (Suc n))"
    unfolding declaration_rule.simps by (intro quiet_simple s)
  moreover have "quiet (statement (Suc n))"
    unfolding statement.simps by (intro quiet_simple f i w b)
  moreover have "quiet (forStatement (Suc n))"
    unfolding forStatement.simps by (intro quiet_simple s)
  moreover have "quiet (ifStatement (Suc n))"
    unfolding ifStatement.simps by (intro quiet_simple s)
  moreover have "quiet (whileStatement (Suc n))"
    unfolding whileStatement.simps by (intro quiet_simple s)
  moreover have "quiet (block (Suc n))"
    unfolding block.simps by (intro quiet_simple l)
  moreover have "quiet (block_loop (Suc n) ss)" for ss
    unfolding block_loop.simps by (intro quiet_simple d l)
  ultimately show ?thesis
    unfolding stmt_quiet_def by blast
qed

lemma stmt_quiet_all: "stmt_quiet n"
  by (induction n) (simp_all add: stmt_quiet_0 stmt_quiet_Suc)

lemma quiet_rel:
  assumes "quiet m" and "m p = (r, p')"
  shows "length (reported p) \<le> length (reported p')"
  using assms unfolding quiet_def valid_def keeps_def
  by (cases r) (auto dest!: spec [of _ "length (reported p)"] spec [of _ p])

lemma quiet_declaration_body:
  "quiet (bind (match [T_Var]) (\<lambda>m.
      if m then bind (varDeclaration n) (\<lambda>s. return (Some s))
      else bind (statement n) (\<lambda>s. return (Some s))))"
  using stmt_quiet_all [of n]
  by (intro quiet_simple) (simp add: stmt_quiet_def)

lemma bind_return_Some: "bind m (\<lambda>s. return (Some s)) p \<noteq> (Inr None, p')"
  by (auto simp: bind_def return_def split: prod.splits sum.splits)

lemma bind_result:
  assumes "bind m f p = (Inr b, p')"
  obtains a p1 where "m p = (Inr a, p1)" and "f a p1 = (Inr b, p')"
  using assms by (auto simp: bind_def split: prod.splits sum.splits)

lemma declaration_body_Some:
  "bind (match [T_Var]) (\<lambda>m.
      if m then bind (varDeclaration n) (\<lambda>s. return (Some s))
      else bind (statement n) (\<lambda>s. return (Some s))) p \<noteq> (Inr None, p')"
proof
  assume "bind (match [T_Var]) (\<lambda>m.
      if m then bind (varDeclaration n) (\<lambda>s. return (Some s))
      else bind (statement n) (\<lambda>s. return (Some s))) p = (Inr None, p')"
  then obtain m p1 where
    "(if m then bind (varDeclaration n) (\<lambda>s. return (Some s))
      else bind (statement n) (\<lambda>s. return (Some s))) p1 = (Inr None, p')"
    by (rule bind_result)
  then show False
    using bind_return_Some [of "varDeclaration n" p1 p'] bind_return_Some [of "statement n" p1 p']
    by (cases m) simp_all
qed

lemma declaration_rule_None:
  assumes "declaration_rule n p = (Inr None, p')"
  shows "length (reported p) < length (reported p')"
proof (cases n)
  case 0
  with assms show ?thesis by (simp add: throw_def)
next
  case (Suc k)
  let ?body = "bind (match [T_Var]) (\<lambda>m.
      if m then bind (varDeclaration k) (\<lambda>s. return (Some s))
      else bind (statement k) (\<lambda>s. return (Some s)))"
  obtain r p1 where body: "?body p = (r, p1)" by (cases "?body p")
  from quiet_rel [OF quiet_declaration_body body]
  have le: "length (reported p) \<le> length (reported p1)" .
  show ?thesis
  proof (cases r)
    case (Inr a)
    with assms Suc body declaration_body_Some [of k p p1] show ?thesis
      by (simp add: try_catch_def)
  next
    case (Inl e)
    show ?thesis
    proof (cases e)
      case (RuntimeError t msg)
      let ?p2 = "p1\<lparr>reported := reported p1 @ [(line t, msg)]\<rparr>"
      from assms Suc body Inl RuntimeError
      have "bind (synchronize k) (\<lambda>_. return (None :: Stmt option)) ?p2 = (Inr None, p')"
        by (simp add: try_catch_def bind_def [of "Raft_error _ _"] Raft_error_def)
      then obtain u where "synchronize k ?p2 = (Inr u, p')"
        by (auto simp: return_def elim!: bind_result)
      from quiet_rel [OF quiet_synchronize this] le show ?thesis by simp
    next
      case OutOfRange
      with assms Suc body Inl show ?thesis by (simp add: try_catch_def)
    next
      case OutOfFuel
      with assms Suc body Inl show ?thesis by (simp add: try_catch_def)
    qed
  qed
qed

lemma parse_loop_reports:
  "parse_loop n ss p = ((eo, ss'), p') \<Longrightarrow>
     count_list ss' None + length (reported p) \<le> count_list ss None + length (reported p')"
proof (induction n arbitrary: ss p)
  case 0
  then show ?case by simp
next
  case (Suc n)
  obtain r p1 where e: "isAtEnd p = (r, p1)" by (cases "isAtEnd p")
  then have p1: "p1 = p"
    by (auto simp: isAtEnd_def bind_def return_def peek_def split: if_splits)
  show ?case
  proof (cases r)
    case (Inl x)
    with Suc.prems e p1 show ?thesis by simp
  next
    case (Inr b)
    show ?thesis
    proof (cases b)
      case True
      with Suc.prems e p1 Inr show ?thesis by simp
    next
      case False
      obtain r2 p2 where d: "declaration_rule n p = (r2, p2)" by (cases "declaration_rule n p")
      from stmt_quiet_all [of n] have "quiet (declaration_rule n)" by (simp add: stmt_quiet_def)
      from quiet_rel [OF this d] have le: "length (reported p) \<le> length (reported p2)" .
      show ?thesis
      proof (cases r2)
        case (Inl x)
        with Suc.prems e p1 Inr False d le show ?thesis by simp
      next
        case (Inr a)
        with Suc.prems e p1 \<open>r = Inr b\<close> False d
        have "parse_loop n (ss @ [a]) p2 = ((eo, ss'), p')" by simp
        from Suc.IH [OF this]
        have ih: "count_list ss' None + length (reported p2)
            \<le> count_list (ss @ [a]) None + length (reported p')" .
        show ?thesis
        proof (cases a)
          case None
          with d Inr declaration_rule_None [of n p p2] ih show ?thesis by simp
        next
          case (Some s)
          with ih le show ?thesis by simp
        qed
      qed
    qed
  qed
qed

lemma parse_reports:
  assumes "parse n p = (Inr statements, p')"
  shows "count_list statements None + length (reported p) \<le> length (reported p')"
proof -
  obtain eo ss p1 where l: "parse_loop n [] p = ((eo, ss), p1)"
    by (metis surj_pair)
  from parse_loop_reports [OF l]
  have le: "count_list ss None + length (reported p) \<le> length (reported p1)" by simp
  show ?thesis
  proof (cases eo)
    case None
    with assms l le show ?thesis by (simp add: parse_def)
  next
    case (Some e)
    show ?thesis
    proof (cases e)
      case (RuntimeError t msg)
      let ?p2 = "p1\<lparr>reported := reported p1 @ [(line t, msg)]\<rparr>"
      from assms l Some RuntimeError
      have "bind (synchronize n) (\<lambda>_. return ss) ?p2 = (Inr statements, p')"
        by (simp add: parse_def bind_def [of "Raft_error _ _"] Raft_error_def)
      then obtain u where "synchronize n ?p2 = (Inr u, p')" and "statements = ss"
        by (auto simp: return_def elim!: bind_result)
      from quiet_rel [OF quiet_synchronize this(1)] le \<open>statements = ss\<close> show ?thesis by simp
    next
      case OutOfRange
      with assms l Some show ?thesis by (simp add: parse_def)
    next
      case OutOfFuel
      with assms l Some show ?thesis by (simp add: parse_def)
    qed
  qed
qed

subsection \<open>A larger budget gives the same result\<close>

lemma stable_refl: "stable m m"
  by (simp add: stable_def)

lemma stable_out_of_fuel: "stable (throw OutOfFuel) m"
  by (simp add: stable_def throw_def)

lemma stable_bind:
  assumes "stable m m'" and "\<And>a. stable (f a) (f' a)"
  shows "stable (bind m f) (bind m' f')"
  unfolding stable_def
proof (intro allI impI)
  fix p assume ok: "fst (bind m f p) \<noteq> Inl OutOfFuel"
  obtain r p1 where mp: "m p = (r, p1)" by (cases "m p")
  show "bind m' f' p = bind m f p"
  proof (cases r)
    case (Inl e)
    with ok mp have "fst (m p) \<noteq> Inl OutOfFuel" by (simp add: bind_def)
    with assms(1) have "m' p = m p" by (simp add: stable_def)
    with mp Inl show ?thesis by (simp add: bind_def)
  next
    case (Inr a)
    with mp assms(1) have same: "m' p = m p" by (simp add: stable_def)
    from ok mp Inr have "fst (f a p1) \<noteq> Inl OutOfFuel" by (simp add: bind_def)
    with assms(2) have "f' a p1 = f a p1" by (simp add: stable_def)
    with same mp Inr show ?thesis by (simp add: bind_def)
  qed
qed

lemma stable_if:
  assumes "b \<Longrightarrow> stable m1 m1'" and "\<not> b \<Longrightarrow> stable m2 m2'"
  shows "stable (if b then m1 else m2) (if b then m1' else m2')"
  using assms by simp

lemma stable_try_catch:
  assumes "stable m m'" and "\<And>t msg. stable (h t msg) (h' t msg)"
  shows "stable (try_catch m h) (try_catch m' h')"
  unfolding stable_def
proof (intro allI impI)
  fix p assume ok: "fst (try_catch m h p) \<noteq> Inl OutOfFuel"
  obtain r p1 where mp: "m p = (r, p1)" by (cases "m p")
  from ok mp have "r \<noteq> Inl OutOfFuel"
    by (auto simp: try_catch_def)
  with mp assms(1) have same: "m' p = m p" by (simp add: stable_def)
  show "try_catch m' h' p = try_catch m h p"
  proof (cases r)
    case (Inr a)
    with same mp show ?thesis by (simp add: try_catch_def)
  next
    case (Inl e)
    show ?thesis
    proof (cases e)
      case (RuntimeError t msg)
      with ok mp Inl have "fst (h t msg p1) \<noteq> Inl OutOfFuel" by (simp add: try_catch_def)
      with assms(2) have "h' t msg p1 = h t msg p1" by (simp add: stable_def)
      with same mp Inl RuntimeError show ?thesis by (simp add: try_catch_def)
    next
      case OutOfRange
      with same mp Inl show ?thesis by (simp add: try_catch_def)
    next
      case OutOfFuel
      with same mp Inl show ?thesis by (simp add: try_catch_def)
    qed
  qed
qed

lemmas stable_structure = stable_bind stable_if stable_try_catch stable_refl

lemma expr_stable_0: "expr_stable 0 m"
  by (simp add: expr_stable_def stable_out_of_fuel)

lemma expr_stable_Suc:
  assumes "expr_stable n m"
  shows "expr_stable (Suc n) (Suc m)"
proof -
  from assms have
    p: "stable (primary n) (primary m)" and u: "stable (unary n) (unary m)"
    and f: "stable (factor n) (factor m)"
    and fl: "\<And>e. stable (factor_loop n e) (factor_loop m e)"
    and tr: "stable (term_rule n) (term_rule m)"
    and tl: "\<And>e. stable (term_loop n e) (term_loop m e)"
    and c: "stable (comparison n) (comparison m)"
    and cl: "\<And>e. stable (comparison_loop n e) (comparison_loop m e)"
    and q: "stable (equality n) (equality m)"
    and ql: "\<And>e. stable (equality_loop n e) (equality_loop m e)"
    and a: "stable (logicAnd n) (logicAnd m)"
    and al: "\<And>e. stable (logicAnd_loop n e) (logicAnd_loop m e)"
    and o: "stable (logicOr n) (logicOr m)"
    and ol: "\<And>e. stable (logicOr_loop n e) (logicOr_loop m e)"
    and g: "stable (assignment n) (assignment m)" and x: "stable (expression n) (expression m)"
    by (simp_all add: expr_stable_def)
  have "stable (primary (Suc n)) (primary (Suc m))"
    unfolding primary.simps by (intro stable_structure x)
  moreover have "stable (unary (Suc n)) (unary (Suc m))"
    unfolding unary.simps by (intro stable_structure u p)
  moreover have "stable (factor (Suc n)) (factor (Suc m))"
    unfolding factor.simps by (intro stable_structure u fl)
  moreover have "stable (factor_loop (Suc n) e) (factor_loop (Suc m) e)" for e
    unfolding factor_loop.simps by (intro stable_structure u fl)
  moreover have "stable (term_rule (Suc n)) (term_rule (Suc m))"
    unfolding term_rule.simps by (intro stable_structure f tl)
  moreover have "stable (term_loop (Suc n) e) (term_loop (Suc m) e)" for e
    unfolding term_loop.simps by (intro stable_structure f tl)
  moreover have "stable (comparison (Suc n)) (comparison (Suc m))"
    unfolding comparison.simps by (intro stable_structure tr cl)
  moreover have "stable (comparison_loop (Suc n) e) (comparison_loop (Suc m) e)" for e
    unfolding comparison_loop.simps by (intro stable_structure tr cl)
  moreover have "stable (equality (Suc n)) (equality (Suc m))"
    unfolding equality.simps by (intro stable_structure c ql)
  moreover have "stable (equality_loop (Suc n) e) (equality_loop (Suc m) e)" for e
    unfolding equality_loop.simps by (intro stable_structure c ql)
  moreover have "stable (logicAnd (Suc n)) (logicAnd (Suc m))"
    unfolding logicAnd.simps by (intro stable_structure q al)
  moreover have "stable (logicAnd_loop (Suc n) e) (logicAnd_loop (Suc m) e)" for e
    unfolding logicAnd_loop.simps by (intro stable_structure q al)
  moreover have "stable (logicOr (Suc n)) (logicOr (Suc m))"
    unfolding logicOr.simps by (intro stable_structure a ol)
  moreover have "stable (logicOr_loop (Suc n) e) (logicOr_loop (Suc m) e)" for e
    unfolding logicOr_loop.simps by (intro stable_structure a ol)
  moreover have "stable (assignment (Suc n)) (assignment (Suc m))"
    unfolding assignment.simps by (intro stable_structure o g)
  moreover have "stable (expression (Suc n)) (expression (Suc m))"
    by (simp add: g)
  ultimately show ?thesis
    unfolding expr_stable_def by blast
qed

lemma expr_stable_all: "expr_stable n (n + k)"
  by (induction n) (simp_all add: expr_stable_0 expr_stable_Suc)

lemma stable_expression: "stable (expression n) (expression (n + k))"
  using expr_stable_all [of n k] by (simp add: expr_stable_def)

lemma stable_synchronize_loop: "stable (synchronize_loop n) (synchronize_loop (n + k))"
  by (induction n) (auto intro!: stable_structure stable_out_of_fuel)

lemma stable_synchronize: "stable (synchronize n) (synchronize (n + k))"
  unfolding synchronize_def by (intro stable_structure stable_synchronize_loop)

lemma stable_varDeclaration: "stable (varDeclaration n) (varDeclaration (n + k))"
  unfolding varDeclaration_def by (intro stable_structure stable_expression)

lemma stable_printStatement: "stable (printStatement n) (printStatement (n + k))"
  unfolding printStatement_def by (intro stable_structure stable_expression)

lemma stable_expressionStatement: "stable (expressionStatement n) (expressionStatement (n + k))"
  unfolding expressionStatement_def by (intro stable_structure stable_expression)

lemmas stable_simple = stable_structure stable_expression stable_synchronize
  stable_varDeclaration stable_printStatement stable_expressionStatement

lemma stmt_stable_0: "stmt_stable 0 m"
  by (simp add: stmt_stable_def stable_out_of_fuel)

lemma stmt_stable_Suc:
  assumes "stmt_stable n (n + k)"
  shows "stmt_stable (Suc n) (Suc (n + k))"
proof -
  from assms have d: "stable (declaration_rule n) (declaration_rule (n + k))"
    and s: "stable (statement n) (statement (n + k))"
    and f: "stable (forStatement n) (forStatement (n + k))"
    and i: "stable (ifStatement n) (ifStatement (n + k))"
    and w: "stable (whileStatement n) (whileStatement (n + k))"
    and b: "stable (block n) (block (n + k))"
    and l: "\<And>ss. stable (block_loop n ss) (block_loop (n + k) ss)"
    by (simp_all add: stmt_stable_def)
  have "stable (declaration_rule (Suc n)) (declaration_rule (Suc (n + k)))"
    unfolding declaration_rule.simps by (intro stable_simple s)
  moreover have "stable (statement (Suc n)) (statement (Suc (n + k)))"
    unfolding statement.simps by (intro stable_simple f i w b)
  moreover have "stable (forStatement (Suc n)) (forStatement (Suc (n + k)))"
    unfolding forStatement.simps by (intro stable_simple s)
  moreover have "stable (ifStatement (Suc n)) (ifStatement (Suc (n + k)))"
    unfolding ifStatement.simps by (intro stable_simple s)
  moreover have "stable (whileStatement (Suc n)) (whileStatement (Suc (n + k)))"
    unfolding whileStatement.simps by (intro stable_simple s)
  moreover have "stable (block (Suc n)) (block (Suc (n + k)))"
    unfolding block.simps by (intro stable_simple l)
  moreover have "stable (block_loop (Suc n) ss) (block_loop (Suc (n + k)) ss)" for ss
    unfolding block_loop.simps by (intro stable_simple d l)
  ultimately show ?thesis
    unfolding stmt_stable_def by blast
qed

lemma stmt_stable_all: "stmt_stable n (n + k)"
  by (induction n) (simp_all add: stmt_stable_0 stmt_stable_Suc)

lemma parse_loop_stable:
  "parse_loop n ss p = ((eo, ss'), p') \<Longrightarrow> eo \<noteq> Some OutOfFuel \<Longrightarrow>
     parse_loop (n + k) ss p = ((eo, ss'), p')"
proof (induction n arbitrary: ss p)
  case 0
  then show ?case by simp
next
  case (Suc n)
  from stmt_stable_all [of n k]
  have d: "stable (declaration_rule n) (declaration_rule (n + k))"
    by (simp add: stmt_stable_def)
  obtain r p1 where e: "isAtEnd p = (r, p1)" by (cases "isAtEnd p")
  show ?case
  proof (cases r)
    case (Inl x)
    with Suc.prems e show ?thesis by simp
  next
    case (Inr b)
    show ?thesis
    proof (cases b)
      case True
      with Suc.prems e Inr show ?thesis by simp
    next
      case False
      obtain r2 p2 where dr: "declaration_rule n p1 = (r2, p2)"
        by (cases "declaration_rule n p1")
      show ?thesis
      proof (cases r2)
        case (Inl x)
        with Suc.prems e \<open>r = Inr b\<close> False dr have "x \<noteq> OutOfFuel" by auto
        with d dr Inl have "declaration_rule (n + k) p1 = (r2, p2)"
          by (simp add: stable_def)
        with Suc.prems e \<open>r = Inr b\<close> False dr Inl show ?thesis by simp
      next
        case (Inr a)
        with d dr have same: "declaration_rule (n + k) p1 = (r2, p2)"
          by (simp add: stable_def)
        from Suc.prems e \<open>r = Inr b\<close> False dr Inr
        have "parse_loop n (ss @ [a]) p2 = ((eo, ss'), p')" by simp
        from Suc.IH [OF this Suc.prems(2)] same e \<open>r = Inr b\<close> False Inr show ?thesis by simp
      qed
    qed
  qed
qed

lemma parse_stable:
  assumes "fst (parse n p) \<noteq> Inl OutOfFuel"
  shows "parse (n + k) p = parse n p"
proof -
  obtain eo ss p1 where l: "parse_loop n [] p = ((eo, ss), p1)"
    by (metis surj_pair)
  from assms l have ne: "eo \<noteq> Some OutOfFuel"
    by (auto simp: parse_def)
  from parse_loop_stable [OF l ne] have l': "parse_loop (n + k) [] p = ((eo, ss), p1)" .
  show ?thesis
  proof (cases eo)
    case None
    with l l' show ?thesis by (simp add: parse_def)
  next
    case (Some e)
    show ?thesis
    proof (cases e)
      case (RuntimeError t msg)
      let ?h = "\<lambda>n. bind (Raft_error (line t) msg) (\<lambda>_. bind (synchronize n) (\<lambda>_. return ss))"
      have "stable (?h n) (?h (n + k))"
        by (intro stable_simple)
      moreover from assms l Some RuntimeError have "fst (?h n p1) \<noteq> Inl OutOfFuel"
        by (simp add: parse_def)
      ultimately have "?h (n + k) p1 = ?h n p1" by (simp add: stable_def)
      with l l' Some RuntimeError show ?thesis by (simp add: parse_def)
    next
      case OutOfRange
      with l l' Some show ?thesis by (simp add: parse_def)
    next
      case OutOfFuel
      with ne Some show ?thesis by simp
    qed
  qed
qed

section \<open>Running the parser on token sequences\<close>

lemma fuel_numeral: "(a::nat) + numeral k = Suc (a + pred_numeral k)"
  by (simp add: numeral_eq_Suc)

lemmas action_defs = bind_def return_def throw_def peek_def previous_def isAtEnd_def advance_def
  check_def consume_def incr_current_def Parser_new_def Raft_error_def try_catch_def
  synchronize_def varDeclaration_def printStatement_def expressionStatement_def parse_def

lemmas token_defs = mk_token_def mk_number_def d0_def d1_def d2_def d3_def

lemma spec_in_bounds:
  assumes "spec ts m r n" and "within ts c p"
  shows "fst (m p) \<noteq> Inl OutOfRange \<and> within ts c (snd (m p))"
proof -
  from assms have "case m p of (Inr a, p') \<Rightarrow> within ts (Suc c) p'
      | (Inl e, p') \<Rightarrow> failing ts c (need ts c r \<le> n) e p'"
    by (simp add: spec_def valid_def)
  then show ?thesis
    by (cases "m p") (auto simp: failing_def within_def split: sum.splits)
qed

lemma forStatement_result:
  assumes "forStatement n p = (Inr s, p')"
  shows "\<exists>i c inc b. s = forDesugar i c inc b"
  using assms
  by (cases n) (auto simp: throw_def bind_def return_def split: prod.splits sum.splits if_splits)

subsection \<open>The parts of a for statement\<close>

lemma forStatement_parts:
  assumes "consume T_LeftParenthesis (''Expect '' @ quoted ''('' @ '' after '' @ quoted ''for'') p
        = (Inr lp, p1)"
    and "for_initializer n p1 = (Inr init, p2)"
    and "for_clause T_Semicolon n p2 = (Inr cond, p3)"
    and "consume T_Semicolon (''Expect '' @ quoted '';'' @ '' after loop condition'') p3
        = (Inr semi, p4)"
    and "for_clause T_RightParenthesis n p4 = (Inr incr, p5)"
    and "consume T_RightParenthesis (''Expect '' @ quoted '')'' @ '' after for clauses'') p5
        = (Inr rp, p6)"
    and "statement n p6 = (Inr body, p7)"
  shows "forStatement (Suc n) p =
    (Inr (let loop = While (case cond of None \<Rightarrow> Literal (Boolean True) | Some e \<Rightarrow> e)
                      (case incr of None \<Rightarrow> body
                       | Some e \<Rightarrow> Block [Some body, Some (ExprStmt e)])
          in case init of None \<Rightarrow> loop | Some s \<Rightarrow> Block [Some s, Some loop]), p7)"
  using assms
  by (simp add: bind_def return_def forDesugar_def Let_def split: option.splits)

lemma for_clause_omitted:
  assumes "current p < length (tokens p)" and "type (tokens p ! current p) = ty"
    and "ty \<noteq> T_EndOfFile"
  shows "for_clause ty n p = (Inr None, p)"
  using assms by (simp add: action_defs)

lemma for_clause_present:
  assumes "current p < length (tokens p)" and "type (tokens p ! current p) \<noteq> ty"
    and "expression n p = (Inr e, p')"
  shows "for_clause ty n p = (Inr (Some e), p')"
  using assms by (simp add: action_defs)

subsection \<open>Skipping to the next statement\<close>

lemma synchronize_loop_skips:
  assumes "j \<le> k" and "Suc k < length ts" and "type (ts ! k) = T_Semicolon"
    and "\<forall>i. j \<le> i \<and> i < k \<longrightarrow> type (ts ! i) \<noteq> T_Semicolon"
    and "\<forall>i. j < i \<and> i < k \<longrightarrow> type (ts ! i) \<noteq> T_EndOfFile \<and> \<not> sync_keyword (type (ts ! i))"
    and "k - j < n"
  shows "synchronize_loop n \<lparr>tokens = ts, current = Suc j, reported = r\<rparr> =
    (Inr (), \<lparr>tokens = ts, current = Suc k, reported = r\<rparr>)"
  using assms
proof (induction n arbitrary: j)
  case 0
  then show ?case by simp
next
  case (Suc n)
  show ?case
  proof (cases "j = k")
    case True
    with Suc.prems show ?thesis
      by (simp add: action_defs)
  next
    case False
    with Suc.prems have lt: "j < k" by simp
    with Suc.prems have a: "type (ts ! j) \<noteq> T_Semicolon" by simp
    have b: "type (ts ! Suc j) \<noteq> T_EndOfFile \<and> \<not> sync_keyword (type (ts ! Suc j))"
    proof (cases "Suc j = k")
      case True
      with Suc.prems show ?thesis by (simp add: sync_keyword_def)
    next
      case False
      with lt have "j < Suc j \<and> Suc j < k" by simp
      with Suc.prems(5) show ?thesis by blast
    qed
    from lt Suc.prems have c: "Suc j < length ts" by simp
    have ih: "synchronize_loop n \<lparr>tokens = ts, current = Suc (Suc j), reported = r\<rparr> =
      (Inr (), \<lparr>tokens = ts, current = Suc k, reported = r\<rparr>)"
      using lt Suc.prems by (intro Suc.IH) auto
    from a b c ih show ?thesis
      by (simp add: action_defs sync_keyword_def)
  qed
qed

lemma synchronize_skips:
  assumes "e \<le> k" and "Suc k < length ts" and "type (ts ! k) = T_Semicolon"
    and "list_all (\<lambda>i. type (ts ! i) \<noteq> T_Semicolon \<and> type (ts ! i) \<noteq> T_EndOfFile) [e..<k]"
    and "list_all (\<lambda>i. \<not> sync_keyword (type (ts ! i))) [Suc e..<k]"
    and "k - e < n"
  shows "synchronize n \<lparr>tokens = ts, current = e, reported = r\<rparr> =
    (Inr (), \<lparr>tokens = ts, current = Suc k, reported = r\<rparr>)"
proof -
  from assms(3,4) have ne: "type (ts ! e) \<noteq> T_EndOfFile"
    by (cases "e = k") (use assms(1) in \<open>auto simp: list_all_iff\<close>)
  from assms(1,2) have "e < length ts" by simp
  with ne have adv: "advance \<lparr>tokens = ts, current = e, reported = r\<rparr> =
      (Inr (ts ! e), \<lparr>tokens = ts, current = Suc e, reported = r\<rparr>)"
    by (simp add: action_defs)
  have "synchronize_loop n \<lparr>tokens = ts, current = Suc e, reported = r\<rparr> =
    (Inr (), \<lparr>tokens = ts, current = Suc k, reported = r\<rparr>)"
    using assms by (intro synchronize_loop_skips) (auto simp: list_all_iff)
  with adv show ?thesis
    by (simp add: synchronize_def bind_def)
qed

lemma stable_declaration_body: "stable (declaration_body n) (declaration_body (n + d))"
  using stmt_stable_all [of n d]
  by (intro stable_simple) (simp add: stmt_stable_def)

lemma declaration_rule_parsed:
  assumes "declaration_body n p = (Inr (Some s), p')"
  shows "declaration_rule (Suc (n + d)) p = (Inr (Some s), p')"
proof -
  from assms stable_declaration_body [of n d]
  have "declaration_body (n + d) p = (Inr (Some s), p')"
    by (simp add: stable_def)
  then show ?thesis
    by (simp add: try_catch_def)
qed

lemma declaration_rule_skipped:
  assumes "declaration_body n \<lparr>tokens = ts, current = c, reported = r\<rparr> =
      (Inl (RuntimeError t msg), \<lparr>tokens = ts, current = e, reported = r'\<rparr>)"
    and "e \<le> k" and "Suc k < length ts" and "type (ts ! k) = T_Semicolon"
    and "list_all (\<lambda>i. type (ts ! i) \<noteq> T_Semicolon \<and> type (ts ! i) \<noteq> T_EndOfFile) [e..<k]"
    and "list_all (\<lambda>i. \<not> sync_keyword (type (ts ! i))) [Suc e..<k]"
    and "k - e < n"
  shows "declaration_rule (Suc (n + d)) \<lparr>tokens = ts, current = c, reported = r\<rparr> =
    (Inr None, \<lparr>tokens = ts, current = Suc k, reported = r' @ [(line t, msg)]\<rparr>)"
proof -
  from assms(1) stable_declaration_body [of n d]
  have body: "declaration_body (n + d) \<lparr>tokens = ts, current = c, reported = r\<rparr> =
      (Inl (RuntimeError t msg), \<lparr>tokens = ts, current = e, reported = r'\<rparr>)"
    by (simp add: stable_def)
  from assms(7) have "k - e < n + d" by simp
  from synchronize_skips [OF assms(2-6) this]
  have "synchronize (n + d) \<lparr>tokens = ts, current = e, reported = r' @ [(line t, msg)]\<rparr> =
    (Inr (), \<lparr>tokens = ts, current = Suc k, reported = r' @ [(line t, msg)]\<rparr>)" .
  with body show ?thesis
    by (simp add: try_catch_def Raft_error_def bind_def return_def)
qed

lemma parse_loop_follows:
  "follows n ts c r os \<Longrightarrow> n + length os < F \<Longrightarrow>
     parse_loop F ss \<lparr>tokens = ts, current = c, reported = r\<rparr> =
       ((None, ss @ nodes os), \<lparr>tokens = ts, current = resumes c os, reported = r @ reports os\<rparr>)"
proof (induction os arbitrary: c r ss F)
  case Nil
  then obtain F' where "F = Suc F'" by (cases F) auto
  with Nil show ?case by (simp add: action_defs)
next
  case (Cons o1 os)
  from Cons.prems obtain d where F: "F = Suc (Suc (n + d))" and d: "length os \<le> d"
    by (cases F) (auto simp: less_Suc_eq_le le_iff_add)
  have more: "n + length os < Suc (n + d)" using d by simp
  show ?case
  proof (cases o1)
    case (Parsed s c' q)
    with Cons.prems have here: "c < length ts" "type (ts ! c) \<noteq> T_EndOfFile"
      and body: "declaration_body n \<lparr>tokens = ts, current = c, reported = r\<rparr> =
         (Inr (Some s), \<lparr>tokens = ts, current = c', reported = r @ q\<rparr>)"
      and rest: "follows n ts c' (r @ q) os"
      by simp_all
    from declaration_rule_parsed [OF body, of d] Cons.IH [OF rest more, of "ss @ [Some s]"] here
    show ?thesis
      by (simp add: F Parsed isAtEnd_def peek_def bind_def return_def del: declaration_rule.simps)
  next
    case (Skipped t msg e k q)
    with Cons.prems have here: "c < length ts" "type (ts ! c) \<noteq> T_EndOfFile"
      and body: "declaration_body n \<lparr>tokens = ts, current = c, reported = r\<rparr> =
         (Inl (RuntimeError t msg), \<lparr>tokens = ts, current = e, reported = r @ q\<rparr>)"
      and sk: "e \<le> k" "Suc k < length ts" "type (ts ! k) = T_Semicolon"
        "list_all (\<lambda>i. type (ts ! i) \<noteq> T_Semicolon \<and> type (ts ! i) \<noteq> T_EndOfFile) [e..<k]"
        "list_all (\<lambda>i. \<not> sync_keyword (type (ts ! i))) [Suc e..<k]"
        "k - e < n"
      and rest: "follows n ts (Suc k) (r @ q @ [(line t, msg)]) os"
      by simp_all
    from declaration_rule_skipped [OF body sk, of d]
      Cons.IH [OF rest more, of "ss @ [None]"] here
    show ?thesis
      by (simp add: F Skipped isAtEnd_def peek_def bind_def return_def del: declaration_rule.simps)
  qed
qed

lemma parse_follows:
  assumes "follows n ts 0 [] os" and "n + length os < F"
  shows "parse F (Parser_new ts) =
    (Inr (nodes os), \<lparr>tokens = ts, current = resumes 0 os, reported = reports os\<rparr>)"
  using parse_loop_follows [OF assms, of "[]"]
  by (simp add: parse_def Parser_new_def)

lemma length_reports: "length (reports os) = count_list (nodes os) None + early os"
  by (induction os rule: nodes.induct) simp_all

subsection \<open>A run of additions and subtractions of any length\<close>

lemma length_chain: "length (chain ops) = 2 * length ops"
  by (induction ops) (auto simp: chain_def)

lemma chain_Cons: "chain ((op, x) # ops) = op # x # chain ops"
  by (simp add: chain_def)

lemma chain_next:
  assumes "\<forall>(op, x) \<in> set ops. type op \<in> {T_Minus, T_Plus} \<and> type x = T_NumberLiteral"
    and "type stop \<notin> {T_Minus, T_Plus, T_Slash, T_Star}"
  obtains y rest' where "chain ops @ stop # rest = y # rest'" and "type y \<notin> {T_Slash, T_Star}"
proof (cases ops)
  case Nil
  with assms(2) that [of stop rest] show ?thesis by (simp add: chain_def)
next
  case (Cons b ops')
  obtain op' x' where "b = (op', x')" by (cases b)
  with Cons assms(1) that [of op' "x' # chain ops' @ stop # rest"] show ?thesis
    by (auto simp: chain_Cons)
qed

lemma factor_number:
  assumes "tokens p = pre @ x # y # rest" and "current p = length pre"
    and "type x = T_NumberLiteral" and "type y \<notin> {T_Slash, T_Star}"
    and "3 \<le> m"
  shows "factor m p = (Inr (Literal (literal x)), p\<lparr>current := Suc (length pre)\<rparr>)"
proof -
  define n where "n = m - 3"
  with \<open>3 \<le> m\<close> have m: "m = Suc (Suc (Suc n))" by arith
  have "(pre @ x # y # rest) ! Suc (length pre) = y"
    by (simp add: nth_append)
  with assms(1-4) show ?thesis
    unfolding m by (simp add: action_defs)
qed

lemma term_loop_fold:
  assumes "tokens p = pre @ chain ops @ stop # rest" and "current p = length pre"
    and "\<forall>(op, x) \<in> set ops. type op \<in> {T_Minus, T_Plus} \<and> type x = T_NumberLiteral"
    and "type stop \<notin> {T_Minus, T_Plus, T_Slash, T_Star}"
    and "length ops + 3 \<le> m"
  shows "term_loop m e p =
    (Inr (fold_binary e ops), p\<lparr>current := length pre + 2 * length ops\<rparr>)"
  using assms
proof (induction ops arbitrary: pre e p m)
  case Nil
  from Nil.prems(5) obtain n where "m = Suc n" by (cases m) auto
  with Nil.prems(1,2,4) show ?case
    by (simp add: action_defs chain_def fold_binary_def)
next
  case (Cons a ops)
  obtain op x where a: "a = (op, x)" by (cases a)
  from Cons.prems(5) obtain n where m: "m = Suc n" and n: "length ops + 3 \<le> n"
    by (cases m) auto
  from Cons.prems(3) a have op: "type op \<in> {T_Minus, T_Plus}" and x: "type x = T_NumberLiteral"
    and ops: "\<forall>(op, x) \<in> set ops. type op \<in> {T_Minus, T_Plus} \<and> type x = T_NumberLiteral"
    by auto
  from Cons.prems(1) a have toks: "tokens p = pre @ op # x # chain ops @ stop # rest"
    by (simp add: chain_Cons)
  let ?p1 = "p\<lparr>current := Suc (length pre)\<rparr>"
  let ?p2 = "p\<lparr>current := Suc (Suc (length pre))\<rparr>"
  from chain_next [OF ops Cons.prems(4), of rest]
  obtain y rest' where next_token: "chain ops @ stop # rest = y # rest'"
    and y: "type y \<notin> {T_Slash, T_Star}" by blast
  have "tokens ?p1 = (pre @ [op]) @ x # y # rest'" and "current ?p1 = length (pre @ [op])"
    using toks next_token by simp_all
  moreover from n have "3 \<le> n" by simp
  ultimately have operand: "factor n ?p1 = (Inr (Literal (literal x)), ?p2)"
    using factor_number [of ?p1 "pre @ [op]" x y rest' n] x y by simp
  have "tokens ?p2 = (pre @ [op, x]) @ chain ops @ stop # rest"
      and "current ?p2 = length (pre @ [op, x])"
    using toks by simp_all
  from Cons.IH [OF this ops Cons.prems(4) n, of "Binary e op (Literal (literal x))"]
  have rest_of_loop: "term_loop n (Binary e op (Literal (literal x))) ?p2 =
      (Inr (fold_binary (Binary e op (Literal (literal x))) ops),
       p\<lparr>current := length pre + 2 * length (a # ops)\<rparr>)"
    by simp
  have step: "term_loop (Suc n) e p =
      bind (factor n) (\<lambda>right. term_loop n (Binary e op right)) ?p1"
    unfolding term_loop.simps
    using toks Cons.prems(2) op
    by (auto simp: action_defs)
  show ?case
    using step operand rest_of_loop a
    by (simp add: m bind_def fold_binary_def)
qed

lemma nth_after_chain: "(x # chain ops @ [stop]) ! Suc (2 * length ops) = stop"
  using nth_append_length [of "x # chain ops" stop "[]"]
  by (simp add: length_chain)

lemma expression_fold:
  assumes "type x = T_NumberLiteral"
    and "\<forall>(op, y) \<in> set ops. type op \<in> {T_Minus, T_Plus} \<and> type y = T_NumberLiteral"
    and "type eof = T_EndOfFile"
    and "length ops + 12 \<le> m"
  shows "expression m (Parser_new (x # chain ops @ [eof])) =
    (Inr (fold_binary (Literal (literal x)) ops),
     \<lparr>tokens = x # chain ops @ [eof], current = Suc (2 * length ops), reported = []\<rparr>)"
proof -
  let ?ts = "x # chain ops @ [eof]"
  let ?p1 = "\<lparr>tokens = ?ts, current = Suc 0, reported = []\<rparr>"
  let ?p2 = "\<lparr>tokens = ?ts, current = Suc (2 * length ops), reported = []\<rparr>"
  define j where "j = m - 7"
  with assms(4) have m: "m = Suc (Suc (Suc (Suc (Suc (Suc (Suc j))))))"
    and j: "length ops + 5 \<le> j"
    by arith+
  have stop: "type eof \<notin> {T_Minus, T_Plus, T_Slash, T_Star}"
    using assms(3) by simp
  from chain_next [OF assms(2) stop, of "[]"]
  obtain y rest where next_token: "chain ops @ [eof] = y # rest"
    and y: "type y \<notin> {T_Slash, T_Star}" by blast
  have "tokens (Parser_new ?ts) = [] @ x # y # rest" and "current (Parser_new ?ts) = length []"
    using next_token by (simp_all add: Parser_new_def)
  moreover from j have "3 \<le> j" by simp
  ultimately have first: "factor j (Parser_new ?ts) = (Inr (Literal (literal x)), ?p1)"
    using factor_number [of "Parser_new ?ts" "[]" x y rest j] assms(1) y
    by (simp add: Parser_new_def)
  have "tokens ?p1 = [x] @ chain ops @ eof # []" and "current ?p1 = length [x]"
    by simp_all
  moreover from j have "length ops + 3 \<le> j" by simp
  ultimately have loop: "term_loop j (Literal (literal x)) ?p1 =
      (Inr (fold_binary (Literal (literal x)) ops), ?p2)"
    using term_loop_fold [of ?p1 "[x]" ops eof "[]" j "Literal (literal x)"] assms(2) stop
    by simp
  have "term_rule (Suc j) (Parser_new ?ts) =
      (Inr (fold_binary (Literal (literal x)) ops), ?p2)"
    unfolding term_rule.simps using first loop by (simp add: bind_def)
  then show ?thesis
    unfolding m
    using assms(3) nth_after_chain [of x ops eof]
    by (simp add: action_defs length_chain)
qed

section \<open>Properties of the parser\<close>

text \<open>
  C4. For the tokens of \<^verbatim>\<open>1 + 2 * 3\<close> (a number, \<^verbatim>\<open>+\<close>, a number, \<^verbatim>\<open>*\<close>, a number,
  end of input), whatever their lines and texts, \<open>expression\<close> returns the \<open>Binary\<close> node of
  \<^verbatim>\<open>+\<close> whose right child is the \<open>Binary\<close> node of \<^verbatim>\<open>*\<close>, with any budget of 12 or
  more. Two more token sequences run through the whole chain: in
  \<^verbatim>\<open>a = b or c and d == e < f + g * -h\<close> every operator takes the rest of the source as
  its right operand, and in \<^verbatim>\<open>-a * b + c < d == e and f or g\<close> every operator takes all
  that comes before it as its left operand.
\<close>

theorem term_factor_precedence:
  "(map type [n1, add, n2, mul, n3, eof] =
      [T_NumberLiteral, T_Plus, T_NumberLiteral, T_Star, T_NumberLiteral, T_EndOfFile]
    \<longrightarrow> expression (n + 12) (Parser_new [n1, add, n2, mul, n3, eof]) =
      (Inr (Binary (Literal (literal n1)) add
              (Binary (Literal (literal n2)) mul (Literal (literal n3)))),
       \<lparr>tokens = [n1, add, n2, mul, n3, eof], current = 5, reported = []\<rparr>))
   \<and> (map type [a, eq, b, lor, c, land, d, eqeq, e, lt, f, pl, g, st, mi, h, eof1] =
      [T_Identifier, T_Equal, T_Identifier, T_Or, T_Identifier, T_And, T_Identifier,
       T_EqualEqual, T_Identifier, T_LessThanSign, T_Identifier, T_Plus, T_Identifier, T_Star,
       T_Minus, T_Identifier, T_EndOfFile]
    \<longrightarrow> fst (expression (n + 20)
          (Parser_new [a, eq, b, lor, c, land, d, eqeq, e, lt, f, pl, g, st, mi, h, eof1])) =
      Inr (Assign a (Logical (Variable b) lor (Logical (Variable c) land
             (Binary (Variable d) eqeq (Binary (Variable e) lt (Binary (Variable f) pl
               (Binary (Variable g) st (Unary mi (Variable h))))))))))
   \<and> (map type [mi', a', st', b', pl', c', lt', d', eqeq', e', land', f', lor', g', eof2] =
      [T_Minus, T_Identifier, T_Star, T_Identifier, T_Plus, T_Identifier, T_LessThanSign,
       T_Identifier, T_EqualEqual, T_Identifier, T_And, T_Identifier, T_Or, T_Identifier,
       T_EndOfFile]
    \<longrightarrow> fst (expression (n + 20)
          (Parser_new [mi', a', st', b', pl', c', lt', d', eqeq', e', land', f', lor', g', eof2])) =
      Inr (Logical (Logical (Binary (Binary (Binary (Binary (Unary mi' (Variable a')) st'
             (Variable b')) pl' (Variable c')) lt' (Variable d')) eqeq' (Variable e')) land'
             (Variable f')) lor' (Variable g')))"
  by (intro conjI impI) (simp_all add: fuel_numeral action_defs)

theorem term_factor_precedence_witness:
  "map type src_precedence =
     [T_NumberLiteral, T_Plus, T_NumberLiteral, T_Star, T_NumberLiteral, T_EndOfFile]
   \<and> fst (expression 12 (Parser_new src_precedence)) =
       Inr (Binary (Literal (Number d1)) (mk_token T_Plus ''+'' 1)
              (Binary (Literal (Number d2)) (mk_token T_Star ''*'' 1) (Literal (Number d3))))
   \<and> map type src_chain_rising =
     [T_Identifier, T_Equal, T_Identifier, T_Or, T_Identifier, T_And, T_Identifier,
      T_EqualEqual, T_Identifier, T_LessThanSign, T_Identifier, T_Plus, T_Identifier, T_Star,
      T_Minus, T_Identifier, T_EndOfFile]
   \<and> fst (expression 20 (Parser_new src_chain_rising)) =
       Inr (Assign (src_chain_rising ! 0)
         (Logical (Variable (src_chain_rising ! 2)) (src_chain_rising ! 3)
           (Logical (Variable (src_chain_rising ! 4)) (src_chain_rising ! 5)
             (Binary (Variable (src_chain_rising ! 6)) (src_chain_rising ! 7)
               (Binary (Variable (src_chain_rising ! 8)) (src_chain_rising ! 9)
                 (Binary (Variable (src_chain_rising ! 10)) (src_chain_rising ! 11)
                   (Binary (Variable (src_chain_rising ! 12)) (src_chain_rising ! 13)
                     (Unary (src_chain_rising ! 14) (Variable (src_chain_rising ! 15))))))))))
   \<and> map type src_chain_falling =
     [T_Minus, T_Identifier, T_Star, T_Identifier, T_Plus, T_Identifier, T_LessThanSign,
      T_Identifier, T_EqualEqual, T_Identifier, T_And, T_Identifier, T_Or, T_Identifier,
      T_EndOfFile]
   \<and> fst (expression 20 (Parser_new src_chain_falling)) =
       Inr (Logical (Logical (Binary (Binary (Binary (Binary
         (Unary (src_chain_falling ! 0) (Variable (src_chain_falling ! 1)))
           (src_chain_falling ! 2) (Variable (src_chain_falling ! 3)))
           (src_chain_falling ! 4) (Variable (src_chain_falling ! 5)))
           (src_chain_falling ! 6) (Variable (src_chain_falling ! 7)))
           (src_chain_falling ! 8) (Variable (src_chain_falling ! 9)))
           (src_chain_falling ! 10) (Variable (src_chain_falling ! 11)))
           (src_chain_falling ! 12) (Variable (src_chain_falling ! 13)))"
  using term_factor_precedence
    [of "src_precedence ! 0" "src_precedence ! 1" "src_precedence ! 2" "src_precedence ! 3"
        "src_precedence ! 4" "src_precedence ! 5" 0
        "src_chain_rising ! 0" "src_chain_rising ! 1" "src_chain_rising ! 2"
        "src_chain_rising ! 3" "src_chain_rising ! 4" "src_chain_rising ! 5"
        "src_chain_rising ! 6" "src_chain_rising ! 7" "src_chain_rising ! 8"
        "src_chain_rising ! 9" "src_chain_rising ! 10" "src_chain_rising ! 11"
        "src_chain_rising ! 12" "src_chain_rising ! 13" "src_chain_rising ! 14"
        "src_chain_rising ! 15" "src_chain_rising ! 16"
        "src_chain_falling ! 0" "src_chain_falling ! 1" "src_chain_falling ! 2"
        "src_chain_falling ! 3" "src_chain_falling ! 4" "src_chain_falling ! 5"
        "src_chain_falling ! 6" "src_chain_falling ! 7" "src_chain_falling ! 8"
        "src_chain_falling ! 9" "src_chain_falling ! 10" "src_chain_falling ! 11"
        "src_chain_falling ! 12" "src_chain_falling ! 13" "src_chain_falling ! 14"]
  by (simp add: src_precedence_def src_chain_rising_def src_chain_falling_def token_defs)

text \<open>
  C5. For the tokens of \<^verbatim>\<open>1 - 2 - 3\<close>, and of the same source with any other binary
  operator in place of both \<^verbatim>\<open>-\<close>, \<open>expression\<close> returns the \<open>Binary\<close> node whose left
  child is the \<open>Binary\<close> node of the first two operands; with \<^verbatim>\<open>and\<close> or \<^verbatim>\<open>or\<close> the
  two nodes are \<open>Logical\<close>. Any budget of 12 or more gives the result. For a number followed
  by any run of \<^verbatim>\<open>+\<close> or \<^verbatim>\<open>-\<close> and a number, the loop of \<^verbatim>\<open>term\<close> returns the
  left fold of the operands, each new right-hand operand on top of the tree built so far.
\<close>

theorem binary_left_associative:
  "(map type [n1, op1, n2, op2, n3, eof] =
      [T_NumberLiteral, op, T_NumberLiteral, op, T_NumberLiteral, T_EndOfFile]
    \<and> op \<in> {T_Minus, T_Plus, T_Slash, T_Star, T_GreaterThanSign, T_GreaterEqual,
              T_LessThanSign, T_LessEqual, T_BangEqual, T_EqualEqual}
    \<longrightarrow> expression (n + 12) (Parser_new [n1, op1, n2, op2, n3, eof]) =
      (Inr (Binary (Binary (Literal (literal n1)) op1 (Literal (literal n2))) op2
              (Literal (literal n3))),
       \<lparr>tokens = [n1, op1, n2, op2, n3, eof], current = 5, reported = []\<rparr>))
   \<and> (map type [n1, op1, n2, op2, n3, eof] =
      [T_NumberLiteral, op, T_NumberLiteral, op, T_NumberLiteral, T_EndOfFile]
    \<and> op \<in> {T_And, T_Or}
    \<longrightarrow> expression (n + 12) (Parser_new [n1, op1, n2, op2, n3, eof]) =
      (Inr (Logical (Logical (Literal (literal n1)) op1 (Literal (literal n2))) op2
              (Literal (literal n3))),
       \<lparr>tokens = [n1, op1, n2, op2, n3, eof], current = 5, reported = []\<rparr>))
   \<and> (type x = T_NumberLiteral
    \<and> (\<forall>(op, y) \<in> set ops. type op \<in> {T_Minus, T_Plus} \<and> type y = T_NumberLiteral)
    \<and> type stop = T_EndOfFile \<and> length ops + 12 \<le> m
    \<longrightarrow> expression m (Parser_new (x # chain ops @ [stop])) =
      (Inr (fold_binary (Literal (literal x)) ops),
       \<lparr>tokens = x # chain ops @ [stop], current = Suc (2 * length ops), reported = []\<rparr>))"
proof (intro conjI impI)
  assume "type x = T_NumberLiteral
    \<and> (\<forall>(op, y) \<in> set ops. type op \<in> {T_Minus, T_Plus} \<and> type y = T_NumberLiteral)
    \<and> type stop = T_EndOfFile \<and> length ops + 12 \<le> m"
  then show "expression m (Parser_new (x # chain ops @ [stop])) =
      (Inr (fold_binary (Literal (literal x)) ops),
       \<lparr>tokens = x # chain ops @ [stop], current = Suc (2 * length ops), reported = []\<rparr>)"
    using expression_fold [of x ops stop m] by blast
qed (elim conjE insertE emptyE; simp add: fuel_numeral action_defs)+

theorem binary_left_associative_witness:
  "map type src_associativity =
     [T_NumberLiteral, T_Minus, T_NumberLiteral, T_Minus, T_NumberLiteral, T_EndOfFile]
   \<and> T_Minus \<in> {T_Minus, T_Plus, T_Slash, T_Star, T_GreaterThanSign, T_GreaterEqual,
              T_LessThanSign, T_LessEqual, T_BangEqual, T_EqualEqual}
   \<and> fst (expression 12 (Parser_new src_associativity)) =
       Inr (Binary (Binary (Literal (Number d1)) (mk_token T_Minus ''-'' 1) (Literal (Number d2)))
              (mk_token T_Minus ''-'' 1) (Literal (Number d3)))
   \<and> map type src_logical =
     [T_NumberLiteral, T_Or, T_NumberLiteral, T_Or, T_NumberLiteral, T_EndOfFile]
   \<and> T_Or \<in> {T_And, T_Or}
   \<and> fst (expression 12 (Parser_new src_logical)) =
       Inr (Logical (Logical (Literal (Number d1)) (mk_token T_Or ''or'' 1) (Literal (Number d2)))
              (mk_token T_Or ''or'' 1) (Literal (Number d3)))
   \<and> type (mk_number ''1'' d1 1) = T_NumberLiteral
   \<and> type (mk_token T_Minus ''-'' 1) \<in> {T_Minus, T_Plus}
   \<and> type (mk_number ''2'' d2 1) = T_NumberLiteral
   \<and> type (mk_number ''3'' d3 1) = T_NumberLiteral
   \<and> type (mk_token T_EndOfFile [] 1) = T_EndOfFile
   \<and> length [(mk_token T_Minus ''-'' 1, mk_number ''2'' d2 1),
              (mk_token T_Minus ''-'' 1, mk_number ''3'' d3 1)] + 12 \<le> 14
   \<and> mk_number ''1'' d1 1
       # chain [(mk_token T_Minus ''-'' 1, mk_number ''2'' d2 1),
                (mk_token T_Minus ''-'' 1, mk_number ''3'' d3 1)]
       @ [mk_token T_EndOfFile [] 1] = src_associativity
   \<and> fst (expression 14 (Parser_new src_associativity)) =
       Inr (Binary (Binary (Literal (Number d1)) (mk_token T_Minus ''-'' 1) (Literal (Number d2)))
              (mk_token T_Minus ''-'' 1) (Literal (Number d3)))"
  using binary_left_associative
    [of "src_associativity ! 0" "src_associativity ! 1" "src_associativity ! 2"
        "src_associativity ! 3" "src_associativity ! 4" "src_associativity ! 5" T_Minus 0
        "mk_number ''1'' d1 1"
        "[(mk_token T_Minus ''-'' 1, mk_number ''2'' d2 1),
          (mk_token T_Minus ''-'' 1, mk_number ''3'' d3 1)]"
        "mk_token T_EndOfFile [] 1" 14]
    binary_left_associative
    [of "src_logical ! 0" "src_logical ! 1" "src_logical ! 2"
        "src_logical ! 3" "src_logical ! 4" "src_logical ! 5" T_Or 0
        "mk_number ''1'' d1 1" "[]" "mk_token T_EndOfFile [] 1" 12]
  by (simp add: src_associativity_def src_logical_def token_defs chain_def fold_binary_def)

text \<open>
  C2. For the tokens of \<^verbatim>\<open>for (var i = 0; i < 3; i = i + 1) print i;\<close>, \<open>parse\<close> returns one
  statement: a \<open>Block\<close> of the \<open>VarDecl\<close> and a \<open>While\<close> whose body is a \<open>Block\<close> of the
  \<open>Print\<close> statement and the increment as an \<open>ExprStmt\<close>; nothing is reported. For the tokens
  of \<^verbatim>\<open>for (;;) print i;\<close> it returns a \<open>While\<close> whose condition is the literal \<open>true\<close>.
  Every statement \<open>forStatement\<close> returns is built by \<open>forDesugar\<close>, which makes a \<open>While\<close>,
  with the literal \<open>true\<close> for a missing condition, inside a \<open>Block\<close> when there is an
  initializer. In general, from any state: when the \<^verbatim>\<open>(\<close> is consumed, the initializer
  clause gives \<open>first\<close>, the condition clause gives \<open>second\<close>, the \<^verbatim>\<open>;\<close> is consumed, the
  increment clause gives \<open>third\<close>, the \<^verbatim>\<open>)\<close> is consumed and the body parses to \<open>inner\<close>,
  then \<open>forStatement\<close> returns the \<open>While\<close> of \<open>second\<close>, or of the literal \<open>true\<close> when
  there is none, and of \<open>inner\<close>, in a \<open>Block\<close> with the \<open>ExprStmt\<close> of \<open>third\<close> after it when
  there is one; and that \<open>While\<close> in a \<open>Block\<close> after \<open>first\<close> when there is one. In
  particular, when the initializer clause gives a statement and the token after it is
  \<^verbatim>\<open>;\<close>, so that the condition is omitted, the result is the \<open>Block\<close> of that statement
  and a \<open>While\<close> whose condition is the literal \<open>true\<close>; so it is for the tokens of
  \<^verbatim>\<open>for (var i = 0;; i = i + 1) print i;\<close>.
\<close>

theorem forStatement_desugars:
  "(map type [for, lp, var, i1, eq1, zero, semi1, i2, lt, three, semi2, i3, eq2, i4, pl, one, rp,
              pr, i5, semi3, eof] =
      [T_For, T_LeftParenthesis, T_Var, T_Identifier, T_Equal, T_NumberLiteral, T_Semicolon,
       T_Identifier, T_LessThanSign, T_NumberLiteral, T_Semicolon,
       T_Identifier, T_Equal, T_Identifier, T_Plus, T_NumberLiteral, T_RightParenthesis,
       T_Print, T_Identifier, T_Semicolon, T_EndOfFile]
    \<longrightarrow> parse (n + 20) (Parser_new [for, lp, var, i1, eq1, zero, semi1, i2, lt, three, semi2,
                                     i3, eq2, i4, pl, one, rp, pr, i5, semi3, eof]) =
      (Inr [Some (Block
              [Some (VarDecl i1 (Some (Literal (literal zero)))),
               Some (While (Binary (Variable i2) lt (Literal (literal three)))
                      (Block [Some (Print (Variable i5)),
                              Some (ExprStmt (Assign i3
                                (Binary (Variable i4) pl (Literal (literal one)))))]))])],
       \<lparr>tokens = [for, lp, var, i1, eq1, zero, semi1, i2, lt, three, semi2,
                   i3, eq2, i4, pl, one, rp, pr, i5, semi3, eof],
          current = 20, reported = []\<rparr>))
   \<and> (map type [for', lp', semi1', semi2', rp', pr', i', semi3', eof'] =
      [T_For, T_LeftParenthesis, T_Semicolon, T_Semicolon, T_RightParenthesis,
       T_Print, T_Identifier, T_Semicolon, T_EndOfFile]
    \<longrightarrow> parse (n + 20) (Parser_new [for', lp', semi1', semi2', rp', pr', i', semi3', eof']) =
      (Inr [Some (While (Literal (Boolean True)) (Print (Variable i')))],
       \<lparr>tokens = [for', lp', semi1', semi2', rp', pr', i', semi3', eof'],
          current = 8, reported = []\<rparr>))
   \<and> (forStatement k p = (Inr s, p') \<longrightarrow> (\<exists>i c inc b. s = forDesugar i c inc b))
   \<and> forDesugar init cond incr body =
      (let loop = While (case cond of None \<Rightarrow> Literal (Boolean True) | Some e \<Rightarrow> e)
                    (case incr of None \<Rightarrow> body | Some e \<Rightarrow> Block [Some body, Some (ExprStmt e)])
       in case init of None \<Rightarrow> loop | Some s \<Rightarrow> Block [Some s, Some loop])
   \<and> (consume T_LeftParenthesis (''Expect '' @ quoted ''('' @ '' after '' @ quoted ''for'') q0
        = (Inr t1, q1)
      \<and> for_initializer m q1 = (Inr first, q2)
      \<and> for_clause T_Semicolon m q2 = (Inr second, q3)
      \<and> consume T_Semicolon (''Expect '' @ quoted '';'' @ '' after loop condition'') q3
        = (Inr t2, q4)
      \<and> for_clause T_RightParenthesis m q4 = (Inr third, q5)
      \<and> consume T_RightParenthesis (''Expect '' @ quoted '')'' @ '' after for clauses'') q5
        = (Inr t3, q6)
      \<and> statement m q6 = (Inr inner, q7)
    \<longrightarrow> forStatement (Suc m) q0 =
      (Inr (let loop = While (case second of None \<Rightarrow> Literal (Boolean True) | Some e \<Rightarrow> e)
                        (case third of None \<Rightarrow> inner
                         | Some e \<Rightarrow> Block [Some inner, Some (ExprStmt e)])
            in case first of None \<Rightarrow> loop | Some s \<Rightarrow> Block [Some s, Some loop]), q7))
   \<and> (consume T_LeftParenthesis (''Expect '' @ quoted ''('' @ '' after '' @ quoted ''for'') u0
        = (Inr t4, u1)
      \<and> for_initializer j u1 = (Inr (Some decl), u2)
      \<and> current u2 < length (tokens u2) \<and> type (tokens u2 ! current u2) = T_Semicolon
      \<and> for_clause T_RightParenthesis j (u2\<lparr>current := current u2 + 1\<rparr>) = (Inr step, u3)
      \<and> consume T_RightParenthesis (''Expect '' @ quoted '')'' @ '' after for clauses'') u3
        = (Inr t5, u4)
      \<and> statement j u4 = (Inr repeated, u5)
    \<longrightarrow> forStatement (Suc j) u0 =
      (Inr (Block [Some decl,
                   Some (While (Literal (Boolean True))
                           (case step of None \<Rightarrow> repeated
                            | Some e \<Rightarrow> Block [Some repeated, Some (ExprStmt e)]))]), u5))
   \<and> (map type [for_n, lp_n, var_n, i1_n, eq1_n, zero_n, semi1_n, semi2_n, i3_n, eq2_n, i4_n,
                pl_n, one_n, rp_n, pr_n, i5_n, semi3_n, eof_n] =
      [T_For, T_LeftParenthesis, T_Var, T_Identifier, T_Equal, T_NumberLiteral, T_Semicolon,
       T_Semicolon, T_Identifier, T_Equal, T_Identifier, T_Plus, T_NumberLiteral,
       T_RightParenthesis, T_Print, T_Identifier, T_Semicolon, T_EndOfFile]
    \<longrightarrow> parse (n + 20) (Parser_new [for_n, lp_n, var_n, i1_n, eq1_n, zero_n, semi1_n, semi2_n,
                                     i3_n, eq2_n, i4_n, pl_n, one_n, rp_n, pr_n, i5_n, semi3_n,
                                     eof_n]) =
      (Inr [Some (Block
              [Some (VarDecl i1_n (Some (Literal (literal zero_n)))),
               Some (While (Literal (Boolean True))
                      (Block [Some (Print (Variable i5_n)),
                              Some (ExprStmt (Assign i3_n
                                (Binary (Variable i4_n) pl_n (Literal (literal one_n)))))]))])],
       \<lparr>tokens = [for_n, lp_n, var_n, i1_n, eq1_n, zero_n, semi1_n, semi2_n, i3_n, eq2_n, i4_n,
                   pl_n, one_n, rp_n, pr_n, i5_n, semi3_n, eof_n],
          current = 17, reported = []\<rparr>))"
proof (intro conjI impI)
  show "forDesugar init cond incr body =
      (let loop = While (case cond of None \<Rightarrow> Literal (Boolean True) | Some e \<Rightarrow> e)
                    (case incr of None \<Rightarrow> body | Some e \<Rightarrow> Block [Some body, Some (ExprStmt e)])
       in case init of None \<Rightarrow> loop | Some s \<Rightarrow> Block [Some s, Some loop])"
    by (simp add: forDesugar_def Let_def split: option.splits)
  show "\<exists>i c inc b. s = forDesugar i c inc b" if "forStatement k p = (Inr s, p')"
    using that by (rule forStatement_result)
  show "forStatement (Suc m) q0 =
      (Inr (let loop = While (case second of None \<Rightarrow> Literal (Boolean True) | Some e \<Rightarrow> e)
                        (case third of None \<Rightarrow> inner
                         | Some e \<Rightarrow> Block [Some inner, Some (ExprStmt e)])
            in case first of None \<Rightarrow> loop | Some s \<Rightarrow> Block [Some s, Some loop]), q7)"
    if "consume T_LeftParenthesis (''Expect '' @ quoted ''('' @ '' after '' @ quoted ''for'') q0
        = (Inr t1, q1)
      \<and> for_initializer m q1 = (Inr first, q2)
      \<and> for_clause T_Semicolon m q2 = (Inr second, q3)
      \<and> consume T_Semicolon (''Expect '' @ quoted '';'' @ '' after loop condition'') q3
        = (Inr t2, q4)
      \<and> for_clause T_RightParenthesis m q4 = (Inr third, q5)
      \<and> consume T_RightParenthesis (''Expect '' @ quoted '')'' @ '' after for clauses'') q5
        = (Inr t3, q6)
      \<and> statement m q6 = (Inr inner, q7)"
    using that
    by (intro forStatement_parts [of q0 t1 q1 m first q2 second q3 t2 q4 third q5 t3 q6 inner q7])
      simp_all
  show "forStatement (Suc j) u0 =
      (Inr (Block [Some decl,
                   Some (While (Literal (Boolean True))
                           (case step of None \<Rightarrow> repeated
                            | Some e \<Rightarrow> Block [Some repeated, Some (ExprStmt e)]))]), u5)"
    if h: "consume T_LeftParenthesis (''Expect '' @ quoted ''('' @ '' after '' @ quoted ''for'') u0
        = (Inr t4, u1)
      \<and> for_initializer j u1 = (Inr (Some decl), u2)
      \<and> current u2 < length (tokens u2) \<and> type (tokens u2 ! current u2) = T_Semicolon
      \<and> for_clause T_RightParenthesis j (u2\<lparr>current := current u2 + 1\<rparr>) = (Inr step, u3)
      \<and> consume T_RightParenthesis (''Expect '' @ quoted '')'' @ '' after for clauses'') u3
        = (Inr t5, u4)
      \<and> statement j u4 = (Inr repeated, u5)"
  proof -
    from h have omitted: "for_clause T_Semicolon j u2 = (Inr None, u2)"
      by (intro for_clause_omitted) simp_all
    from h have semi: "consume T_Semicolon (''Expect '' @ quoted '';'' @ '' after loop condition'') u2
        = (Inr (tokens u2 ! current u2), u2\<lparr>current := current u2 + 1\<rparr>)"
      by (simp add: action_defs)
    from h have rest: "consume T_LeftParenthesis (''Expect '' @ quoted ''('' @ '' after '' @ quoted ''for'') u0
        = (Inr t4, u1)" "for_initializer j u1 = (Inr (Some decl), u2)"
      "for_clause T_RightParenthesis j (u2\<lparr>current := current u2 + 1\<rparr>) = (Inr step, u3)"
      "consume T_RightParenthesis (''Expect '' @ quoted '')'' @ '' after for clauses'') u3
        = (Inr t5, u4)" "statement j u4 = (Inr repeated, u5)"
      by simp_all
    from forStatement_parts [OF rest(1,2) omitted semi rest(3,4,5)]
    show ?thesis by (simp add: Let_def)
  qed
qed (simp_all add: fuel_numeral action_defs forDesugar_def)

theorem forStatement_desugars_witness:
  "map type src_for =
      [T_For, T_LeftParenthesis, T_Var, T_Identifier, T_Equal, T_NumberLiteral, T_Semicolon,
       T_Identifier, T_LessThanSign, T_NumberLiteral, T_Semicolon,
       T_Identifier, T_Equal, T_Identifier, T_Plus, T_NumberLiteral, T_RightParenthesis,
       T_Print, T_Identifier, T_Semicolon, T_EndOfFile]
   \<and> fst (parse 20 (Parser_new src_for)) =
      Inr [Some (Block
             [Some (VarDecl (mk_token T_Identifier ''i'' 1) (Some (Literal (Number d0)))),
              Some (While (Binary (Variable (mk_token T_Identifier ''i'' 1))
                             (mk_token T_LessThanSign ''<'' 1) (Literal (Number d3)))
                     (Block [Some (Print (Variable (mk_token T_Identifier ''i'' 1))),
                             Some (ExprStmt (Assign (mk_token T_Identifier ''i'' 1)
                               (Binary (Variable (mk_token T_Identifier ''i'' 1))
                                  (mk_token T_Plus ''+'' 1) (Literal (Number d1)))))]))])]
   \<and> map type src_for_ever =
      [T_For, T_LeftParenthesis, T_Semicolon, T_Semicolon, T_RightParenthesis,
       T_Print, T_Identifier, T_Semicolon, T_EndOfFile]
   \<and> fst (parse 20 (Parser_new src_for_ever)) =
      Inr [Some (While (Literal (Boolean True)) (Print (Variable (mk_token T_Identifier ''i'' 1))))]
   \<and> forStatement 20 (Parser_new (tl src_for_ever)) =
      (Inr (While (Literal (Boolean True)) (Print (Variable (mk_token T_Identifier ''i'' 1)))),
       \<lparr>tokens = tl src_for_ever, current = 7, reported = []\<rparr>)
   \<and> (\<exists>i c inc b. While (Literal (Boolean True)) (Print (Variable (mk_token T_Identifier ''i'' 1)))
         = forDesugar i c inc b)
   \<and> consume T_LeftParenthesis (''Expect '' @ quoted ''('' @ '' after '' @ quoted ''for'')
        \<lparr>tokens = src_for_no_condition, current = 1, reported = []\<rparr>
      = (Inr (mk_token T_LeftParenthesis ''('' 1),
         \<lparr>tokens = src_for_no_condition, current = 2, reported = []\<rparr>)
   \<and> for_initializer 19 \<lparr>tokens = src_for_no_condition, current = 2, reported = []\<rparr>
      = (Inr (Some (VarDecl (mk_token T_Identifier ''i'' 1) (Some (Literal (Number d0))))),
         \<lparr>tokens = src_for_no_condition, current = 7, reported = []\<rparr>)
   \<and> for_clause T_Semicolon 19 \<lparr>tokens = src_for_no_condition, current = 7, reported = []\<rparr>
      = (Inr None, \<lparr>tokens = src_for_no_condition, current = 7, reported = []\<rparr>)
   \<and> type (src_for_no_condition ! 7) = T_Semicolon
   \<and> consume T_Semicolon (''Expect '' @ quoted '';'' @ '' after loop condition'')
        \<lparr>tokens = src_for_no_condition, current = 7, reported = []\<rparr>
      = (Inr (mk_token T_Semicolon '';'' 1),
         \<lparr>tokens = src_for_no_condition, current = 8, reported = []\<rparr>)
   \<and> for_clause T_RightParenthesis 19
        \<lparr>tokens = src_for_no_condition, current = 8, reported = []\<rparr>
      = (Inr (Some (Assign (mk_token T_Identifier ''i'' 1)
                      (Binary (Variable (mk_token T_Identifier ''i'' 1))
                         (mk_token T_Plus ''+'' 1) (Literal (Number d1))))),
         \<lparr>tokens = src_for_no_condition, current = 13, reported = []\<rparr>)
   \<and> consume T_RightParenthesis (''Expect '' @ quoted '')'' @ '' after for clauses'')
        \<lparr>tokens = src_for_no_condition, current = 13, reported = []\<rparr>
      = (Inr (mk_token T_RightParenthesis '')'' 1),
         \<lparr>tokens = src_for_no_condition, current = 14, reported = []\<rparr>)
   \<and> statement 19 \<lparr>tokens = src_for_no_condition, current = 14, reported = []\<rparr>
      = (Inr (Print (Variable (mk_token T_Identifier ''i'' 1))),
         \<lparr>tokens = src_for_no_condition, current = 17, reported = []\<rparr>)
   \<and> forStatement 20 \<lparr>tokens = src_for_no_condition, current = 1, reported = []\<rparr>
      = (Inr (Block
               [Some (VarDecl (mk_token T_Identifier ''i'' 1) (Some (Literal (Number d0)))),
                Some (While (Literal (Boolean True))
                       (Block [Some (Print (Variable (mk_token T_Identifier ''i'' 1))),
                               Some (ExprStmt (Assign (mk_token T_Identifier ''i'' 1)
                                 (Binary (Variable (mk_token T_Identifier ''i'' 1))
                                    (mk_token T_Plus ''+'' 1) (Literal (Number d1)))))]))]),
         \<lparr>tokens = src_for_no_condition, current = 17, reported = []\<rparr>)
   \<and> map type src_for_no_condition =
      [T_For, T_LeftParenthesis, T_Var, T_Identifier, T_Equal, T_NumberLiteral, T_Semicolon,
       T_Semicolon, T_Identifier, T_Equal, T_Identifier, T_Plus, T_NumberLiteral,
       T_RightParenthesis, T_Print, T_Identifier, T_Semicolon, T_EndOfFile]
   \<and> parse 20 (Parser_new src_for_no_condition) =
      (Inr [Some (Block
               [Some (VarDecl (mk_token T_Identifier ''i'' 1) (Some (Literal (Number d0)))),
                Some (While (Literal (Boolean True))
                       (Block [Some (Print (Variable (mk_token T_Identifier ''i'' 1))),
                               Some (ExprStmt (Assign (mk_token T_Identifier ''i'' 1)
                                 (Binary (Variable (mk_token T_Identifier ''i'' 1))
                                    (mk_token T_Plus ''+'' 1) (Literal (Number d1)))))]))])],
       \<lparr>tokens = src_for_no_condition, current = 17, reported = []\<rparr>)"
proof -
  let ?i = "mk_token T_Identifier ''i'' 1"
  let ?decl = "VarDecl ?i (Some (Literal (Number d0)))"
  let ?step = "Assign ?i (Binary (Variable ?i) (mk_token T_Plus ''+'' 1) (Literal (Number d1)))"
  let ?at = "\<lambda>c. \<lparr>tokens = src_for_no_condition, current = c, reported = []\<rparr>"
  have run: "forStatement 20 (Parser_new (tl src_for_ever)) =
      (Inr (While (Literal (Boolean True)) (Print (Variable ?i))),
       \<lparr>tokens = tl src_for_ever, current = 7, reported = []\<rparr>)"
    by (simp add: src_for_ever_def token_defs eval_nat_numeral action_defs forDesugar_def)
  have parts:
    "consume T_LeftParenthesis (''Expect '' @ quoted ''('' @ '' after '' @ quoted ''for'') (?at 1)
      = (Inr (mk_token T_LeftParenthesis ''('' 1), ?at 2)"
    "for_initializer 19 (?at 2) = (Inr (Some ?decl), ?at 7)"
    "for_clause T_Semicolon 19 (?at 7) = (Inr None, ?at 7)"
    "type (src_for_no_condition ! 7) = T_Semicolon"
    "consume T_Semicolon (''Expect '' @ quoted '';'' @ '' after loop condition'') (?at 7)
      = (Inr (mk_token T_Semicolon '';'' 1), ?at 8)"
    "for_clause T_RightParenthesis 19 (?at 8) = (Inr (Some ?step), ?at 13)"
    "consume T_RightParenthesis (''Expect '' @ quoted '')'' @ '' after for clauses'') (?at 13)
      = (Inr (mk_token T_RightParenthesis '')'' 1), ?at 14)"
    "statement 19 (?at 14) = (Inr (Print (Variable ?i)), ?at 17)"
    by (simp_all add: src_for_no_condition_def token_defs eval_nat_numeral action_defs)
  have size: "current (?at 7) < length (tokens (?at 7))" "(?at 7)\<lparr>current := current (?at 7) + 1\<rparr> = ?at 8"
    "type (tokens (?at 7) ! current (?at 7)) = T_Semicolon"
    by (simp_all add: src_for_no_condition_def token_defs)
  note inst = forStatement_desugars
      [of "src_for ! 0" "src_for ! 1" "src_for ! 2" "src_for ! 3" "src_for ! 4" "src_for ! 5"
          "src_for ! 6" "src_for ! 7" "src_for ! 8" "src_for ! 9" "src_for ! 10" "src_for ! 11"
          "src_for ! 12" "src_for ! 13" "src_for ! 14" "src_for ! 15" "src_for ! 16" "src_for ! 17"
          "src_for ! 18" "src_for ! 19" "src_for ! 20" 0
          "src_for_ever ! 0" "src_for_ever ! 1" "src_for_ever ! 2" "src_for_ever ! 3"
          "src_for_ever ! 4" "src_for_ever ! 5" "src_for_ever ! 6" "src_for_ever ! 7"
          "src_for_ever ! 8"
          20 "Parser_new (tl src_for_ever)"
          "While (Literal (Boolean True)) (Print (Variable ?i))"
          "\<lparr>tokens = tl src_for_ever, current = 7, reported = []\<rparr>"
          None None None "Print (Variable ?i)"
          "?at 1" "mk_token T_LeftParenthesis ''('' 1" "?at 2" 19 "Some ?decl" "?at 7"
          None "?at 7" "mk_token T_Semicolon '';'' 1" "?at 8" "Some ?step" "?at 13"
          "mk_token T_RightParenthesis '')'' 1" "?at 14" "Print (Variable ?i)" "?at 17"
          "?at 1" "mk_token T_LeftParenthesis ''('' 1" "?at 2" 19 ?decl "?at 7"
          "Some ?step" "?at 13" "mk_token T_RightParenthesis '')'' 1" "?at 14"
          "Print (Variable ?i)" "?at 17"
          "src_for_no_condition ! 0" "src_for_no_condition ! 1" "src_for_no_condition ! 2"
          "src_for_no_condition ! 3" "src_for_no_condition ! 4" "src_for_no_condition ! 5"
          "src_for_no_condition ! 6" "src_for_no_condition ! 7" "src_for_no_condition ! 8"
          "src_for_no_condition ! 9" "src_for_no_condition ! 10" "src_for_no_condition ! 11"
          "src_for_no_condition ! 12" "src_for_no_condition ! 13" "src_for_no_condition ! 14"
          "src_for_no_condition ! 15" "src_for_no_condition ! 16" "src_for_no_condition ! 17"]
  from inst parts have general: "forStatement (Suc 19) (?at 1) =
      (Inr (let loop = While (case None of None \<Rightarrow> Literal (Boolean True) | Some e \<Rightarrow> e)
                        (case Some ?step of None \<Rightarrow> Print (Variable ?i)
                         | Some e \<Rightarrow> Block [Some (Print (Variable ?i)), Some (ExprStmt e)])
            in case Some ?decl of None \<Rightarrow> loop | Some s \<Rightarrow> Block [Some s, Some loop]), ?at 17)"
    by blast
  from inst parts size have omitted: "forStatement (Suc 19) (?at 1) =
      (Inr (Block [Some ?decl,
                   Some (While (Literal (Boolean True))
                           (case Some ?step of None \<Rightarrow> Print (Variable ?i)
                            | Some e \<Rightarrow> Block [Some (Print (Variable ?i)), Some (ExprStmt e)]))]),
       ?at 17)"
    by simp
  show ?thesis
    using inst run parts omitted
    by (simp add: src_for_def src_for_ever_def src_for_no_condition_def token_defs)
qed

text \<open>
  C3, as the code has it. When the left side parsed by \<open>logicOr\<close> is not a \<open>Variable\<close>, the
  next token is \<^verbatim>\<open>=\<close> and the right side parses to a value, \<open>assignment\<close> reports
  "Invalid assignment target" once, at the line of the \<^verbatim>\<open>=\<close> token and after whatever the
  right side reported, builds no \<open>Assign\<close> node and returns the left expression. For the
  tokens of \<^verbatim>\<open>1 = 2;\<close> \<open>parse\<close> reports that one error and returns the expression
  statement of the literal 1.
\<close>

theorem assignment_invalid_target:
  "(logicOr n p = (Inr expr, p1) \<and> \<not> is_Variable expr
      \<and> peek p1 = (Inr equals, p1) \<and> type equals = T_Equal
      \<and> assignment n (p1\<lparr>current := current p1 + 1\<rparr>) = (Inr val, p2)
    \<longrightarrow> assignment (Suc n) p =
      (Inr expr, p2\<lparr>reported := reported p2 @ [(line equals, ''Invalid assignment target'')]\<rparr>))
   \<and> (map type [n1, eq, n2, semi, eof] =
      [T_NumberLiteral, T_Equal, T_NumberLiteral, T_Semicolon, T_EndOfFile]
    \<longrightarrow> parse (k + 20) (Parser_new [n1, eq, n2, semi, eof]) =
      (Inr [Some (ExprStmt (Literal (literal n1)))],
       \<lparr>tokens = [n1, eq, n2, semi, eof], current = 4,
          reported = [(line eq, ''Invalid assignment target'')]\<rparr>))"
proof (intro conjI impI)
  assume "logicOr n p = (Inr expr, p1) \<and> \<not> is_Variable expr
      \<and> peek p1 = (Inr equals, p1) \<and> type equals = T_Equal
      \<and> assignment n (p1\<lparr>current := current p1 + 1\<rparr>) = (Inr val, p2)"
  then show "assignment (Suc n) p =
      (Inr expr, p2\<lparr>reported := reported p2 @ [(line equals, ''Invalid assignment target'')]\<rparr>)"
    by (cases expr) (auto simp: action_defs split: if_splits)
qed (simp add: fuel_numeral action_defs)

theorem assignment_invalid_target_witness:
  "logicOr 10 (Parser_new src_assign) =
     (Inr (Literal (Number d1)), \<lparr>tokens = src_assign, current = 1, reported = []\<rparr>)
   \<and> \<not> is_Variable (Literal (Number d1))
   \<and> peek \<lparr>tokens = src_assign, current = 1, reported = []\<rparr> =
     (Inr (mk_token T_Equal ''='' 2), \<lparr>tokens = src_assign, current = 1, reported = []\<rparr>)
   \<and> type (mk_token T_Equal ''='' 2) = T_Equal
   \<and> assignment 10 \<lparr>tokens = src_assign, current = 2, reported = []\<rparr> =
     (Inr (Literal (Number d2)), \<lparr>tokens = src_assign, current = 3, reported = []\<rparr>)
   \<and> assignment 11 (Parser_new src_assign) =
     (Inr (Literal (Number d1)),
      \<lparr>tokens = src_assign, current = 3, reported = [(2, ''Invalid assignment target'')]\<rparr>)
   \<and> map type src_assign =
     [T_NumberLiteral, T_Equal, T_NumberLiteral, T_Semicolon, T_EndOfFile]
   \<and> parse 20 (Parser_new src_assign) =
     (Inr [Some (ExprStmt (Literal (Number d1)))],
      \<lparr>tokens = src_assign, current = 4, reported = [(2, ''Invalid assignment target'')]\<rparr>)"
proof -
  have left: "logicOr 10 (Parser_new src_assign) =
     (Inr (Literal (Number d1)), \<lparr>tokens = src_assign, current = 1, reported = []\<rparr>)"
    by (simp add: src_assign_def token_defs eval_nat_numeral action_defs)
  have right: "assignment 10 \<lparr>tokens = src_assign, current = 2, reported = []\<rparr> =
     (Inr (Literal (Number d2)), \<lparr>tokens = src_assign, current = 3, reported = []\<rparr>)"
    by (simp add: src_assign_def token_defs eval_nat_numeral action_defs)
  have next_token: "peek \<lparr>tokens = src_assign, current = 1, reported = []\<rparr> =
     (Inr (mk_token T_Equal ''='' 2), \<lparr>tokens = src_assign, current = 1, reported = []\<rparr>)"
    by (simp add: src_assign_def token_defs peek_def)
  show ?thesis
    using assignment_invalid_target
      [of 10 "Parser_new src_assign" "Literal (Number d1)"
          "\<lparr>tokens = src_assign, current = 1, reported = []\<rparr>" "mk_token T_Equal ''='' 2"
          "Literal (Number d2)" "\<lparr>tokens = src_assign, current = 3, reported = []\<rparr>"
          "src_assign ! 0" "src_assign ! 1" "src_assign ! 2" "src_assign ! 3" "src_assign ! 4" 0]
      left right next_token
    by (simp add: src_assign_def token_defs eval_nat_numeral)
qed

text \<open>
  C3, as the claim states it, fails for the tokens of \<^verbatim>\<open>1 = ;\<close>. The left side parses to
  the literal 1, which is not a \<open>Variable\<close>, and the next token is \<^verbatim>\<open>=\<close>; parsing the right
  side throws, so \<open>assignment\<close> reports nothing and returns no expression, and the only
  report of \<open>parse\<close> is the "Expect expression" of the statement.
\<close>

theorem assignment_invalid_target_counterexample:
  "logicOr 10 (Parser_new src_assign_no_value) =
     (Inr (Literal (Number d1)), \<lparr>tokens = src_assign_no_value, current = 1, reported = []\<rparr>)
   \<and> \<not> is_Variable (Literal (Number d1))
   \<and> type (src_assign_no_value ! 1) = T_Equal
   \<and> assignment 11 (Parser_new src_assign_no_value) =
     (Inl (RuntimeError (mk_token T_Semicolon '';'' 1) ''Expect expression''),
      \<lparr>tokens = src_assign_no_value, current = 2, reported = []\<rparr>)
   \<and> parse 20 (Parser_new src_assign_no_value) =
     (Inr [None],
      \<lparr>tokens = src_assign_no_value, current = 3, reported = [(1, ''Expect expression'')]\<rparr>)"
  by (simp add: src_assign_no_value_def token_defs eval_nat_numeral action_defs)

text \<open>
  C1, as the code has it. \<open>parse\<close> never ends with a \<open>RuntimeError\<close>. On every token
  sequence that ends with the end-of-input token it returns a statement list when the budget
  is \<open>20 * length ts + 12\<close> or more, the same list and state for every such budget, and the
  null entries of the list are at most as many as the reports made. On every token sequence
  that is a run of statements up to the end of input, each of which either parses or throws
  with the next \<^verbatim>\<open>;\<close> ahead of the offending token and no statement keyword between the
  two (\<open>follows\<close>), \<open>parse\<close> returns the list that has the node of each statement that parses
  and a null entry for each one that throws; it resumes right after the \<^verbatim>\<open>;\<close> of a
  statement that throws; and it reports, in order, what each statement reports while it is
  parsed, such as an invalid assignment target, and the error of each statement that throws.
  So the reports are as many as the null entries and the reports made without throwing
  together: exactly two for two malformed statements that report nothing before they throw.
  For the tokens of \<^verbatim>\<open>print ; print ; print 1;\<close> it reports two errors, one at the line of
  each offending \<^verbatim>\<open>;\<close>, and returns two null entries and the \<open>Print\<close> node. For the
  tokens of \<^verbatim>\<open>print 1 2 3; var = 2; print 3;\<close> it reports the error at the \<^verbatim>\<open>2\<close> and the
  error at the \<^verbatim>\<open>=\<close>, skips the tokens up to the \<^verbatim>\<open>;\<close> of each malformed statement,
  and returns two null entries and the \<open>Print\<close> node.
\<close>

theorem parse_recovers:
  "fst (parse n p) \<noteq> Inl (RuntimeError t m)
   \<and> (ts \<noteq> [] \<and> type (last ts) = T_EndOfFile \<and> 20 * length ts + 12 \<le> k
    \<longrightarrow> (\<exists>statements p'. parse k (Parser_new ts) = (Inr statements, p')
          \<and> parse (k + i) (Parser_new ts) = (Inr statements, p')
          \<and> count_list statements None \<le> length (reported p')))
   \<and> (map type [pr1, semi1, pr2, semi2, pr3, n1, semi3, eof] =
      [T_Print, T_Semicolon, T_Print, T_Semicolon, T_Print, T_NumberLiteral, T_Semicolon,
       T_EndOfFile]
    \<longrightarrow> parse (j + 20) (Parser_new [pr1, semi1, pr2, semi2, pr3, n1, semi3, eof]) =
      (Inr [None, None, Some (Print (Literal (literal n1)))],
       \<lparr>tokens = [pr1, semi1, pr2, semi2, pr3, n1, semi3, eof], current = 7,
          reported = [(line semi1, ''Expect expression''), (line semi2, ''Expect expression'')]\<rparr>))
   \<and> (follows b us 0 [] os \<and> b + length os < f
    \<longrightarrow> parse f (Parser_new us) =
          (Inr (nodes os), \<lparr>tokens = us, current = resumes 0 os, reported = reports os\<rparr>)
        \<and> length (reports os) = count_list (nodes os) None + early os)
   \<and> (map type [p1, a1, a2, a3, s1, v2, e2, b2, s2, p3, c3, s3, stop] =
      [T_Print, T_NumberLiteral, T_NumberLiteral, T_NumberLiteral, T_Semicolon,
       T_Var, T_Equal, T_NumberLiteral, T_Semicolon,
       T_Print, T_NumberLiteral, T_Semicolon, T_EndOfFile]
    \<longrightarrow> parse (j + 20) (Parser_new [p1, a1, a2, a3, s1, v2, e2, b2, s2, p3, c3, s3, stop]) =
      (Inr [None, None, Some (Print (Literal (literal c3)))],
       \<lparr>tokens = [p1, a1, a2, a3, s1, v2, e2, b2, s2, p3, c3, s3, stop], current = 12,
          reported = [(line a2, ''Expect '' @ quoted '';'' @ '' after value''),
                      (line e2, ''Expect variable name'')]\<rparr>))"
proof (intro conjI impI)
  show "fst (parse n p) \<noteq> Inl (RuntimeError t m)"
    using parse_no_RuntimeError [of n p t m "snd (parse n p)"]
    by (cases "parse n p") auto
  show "\<exists>statements p'. parse k (Parser_new ts) = (Inr statements, p')
          \<and> parse (k + i) (Parser_new ts) = (Inr statements, p')
          \<and> count_list statements None \<le> length (reported p')"
    if "ts \<noteq> [] \<and> type (last ts) = T_EndOfFile \<and> 20 * length ts + 12 \<le> k"
  proof -
    from that have "terminated ts" and "20 * length ts + 12 \<le> k"
      by (simp_all add: terminated_def)
    from parse_returns [OF this] obtain statements p'
      where run: "parse k (Parser_new ts) = (Inr statements, p')" by blast
    then have "parse (k + i) (Parser_new ts) = (Inr statements, p')"
      using parse_stable [of k "Parser_new ts" i] by simp
    moreover from parse_reports [OF run]
    have "count_list statements None \<le> length (reported p')" by simp
    ultimately show ?thesis using run by blast
  qed
  show "parse f (Parser_new us) =
      (Inr (nodes os), \<lparr>tokens = us, current = resumes 0 os, reported = reports os\<rparr>)"
    if "follows b us 0 [] os \<and> b + length os < f"
    using that by (intro parse_follows [of b]) simp_all
  show "length (reports os) = count_list (nodes os) None + early os"
    by (rule length_reports)
qed (simp_all add: fuel_numeral action_defs)

theorem parse_recovers_witness:
  "src_two_errors \<noteq> [] \<and> type (last src_two_errors) = T_EndOfFile
   \<and> 20 * length src_two_errors + 12 \<le> 172
   \<and> (\<exists>statements p'. parse 172 (Parser_new src_two_errors) = (Inr statements, p')
        \<and> parse (172 + 1) (Parser_new src_two_errors) = (Inr statements, p')
        \<and> count_list statements None \<le> length (reported p'))
   \<and> map type src_two_errors =
      [T_Print, T_Semicolon, T_Print, T_Semicolon, T_Print, T_NumberLiteral, T_Semicolon,
       T_EndOfFile]
   \<and> parse 20 (Parser_new src_two_errors) =
      (Inr [None, None, Some (Print (Literal (Number d1)))],
       \<lparr>tokens = src_two_errors, current = 7,
          reported = [(1, ''Expect expression''), (2, ''Expect expression'')]\<rparr>)
   \<and> follows 20 src_two_skipped 0 []
        [Skipped (mk_number ''2'' d2 1) (''Expect '' @ quoted '';'' @ '' after value'') 2 4 [],
         Skipped (mk_token T_Equal ''='' 2) ''Expect variable name'' 6 8 [],
         Parsed (Print (Literal (Number d3))) 12 []]
   \<and> parse 24 (Parser_new src_two_skipped) =
      (Inr [None, None, Some (Print (Literal (Number d3)))],
       \<lparr>tokens = src_two_skipped, current = 12,
          reported = [(1, ''Expect '' @ quoted '';'' @ '' after value''),
                      (2, ''Expect variable name'')]\<rparr>)
   \<and> map type src_two_skipped =
      [T_Print, T_NumberLiteral, T_NumberLiteral, T_NumberLiteral, T_Semicolon,
       T_Var, T_Equal, T_NumberLiteral, T_Semicolon,
       T_Print, T_NumberLiteral, T_Semicolon, T_EndOfFile]
   \<and> parse 20 (Parser_new src_two_skipped) =
      (Inr [None, None, Some (Print (Literal (Number d3)))],
       \<lparr>tokens = src_two_skipped, current = 12,
          reported = [(1, ''Expect '' @ quoted '';'' @ '' after value''),
                      (2, ''Expect variable name'')]\<rparr>)"
proof -
  let ?os = "[Skipped (mk_number ''2'' d2 1) (''Expect '' @ quoted '';'' @ '' after value'') 2 4 [],
         Skipped (mk_token T_Equal ''='' 2) ''Expect variable name'' 6 8 [],
         Parsed (Print (Literal (Number d3))) 12 []]"
  have hyps: "src_two_errors \<noteq> [] \<and> type (last src_two_errors) = T_EndOfFile
      \<and> 20 * length src_two_errors + 12 \<le> 172"
    by (simp add: src_two_errors_def token_defs)
  have types: "map type [src_two_errors ! 0, src_two_errors ! 1, src_two_errors ! 2,
        src_two_errors ! 3, src_two_errors ! 4, src_two_errors ! 5, src_two_errors ! 6,
        src_two_errors ! 7] =
      [T_Print, T_Semicolon, T_Print, T_Semicolon, T_Print, T_NumberLiteral, T_Semicolon,
       T_EndOfFile]"
    by (simp add: src_two_errors_def token_defs)
  have met: "follows 20 src_two_skipped 0 [] ?os"
    by (simp add: src_two_skipped_def token_defs eval_nat_numeral action_defs sync_keyword_def
        upt_rec)
  have types2: "map type src_two_skipped =
      [T_Print, T_NumberLiteral, T_NumberLiteral, T_NumberLiteral, T_Semicolon,
       T_Var, T_Equal, T_NumberLiteral, T_Semicolon,
       T_Print, T_NumberLiteral, T_Semicolon, T_EndOfFile]"
    by (simp add: src_two_skipped_def token_defs)
  have types3: "map type [src_two_skipped ! 0, src_two_skipped ! 1, src_two_skipped ! 2,
        src_two_skipped ! 3, src_two_skipped ! 4, src_two_skipped ! 5, src_two_skipped ! 6,
        src_two_skipped ! 7, src_two_skipped ! 8, src_two_skipped ! 9, src_two_skipped ! 10,
        src_two_skipped ! 11, src_two_skipped ! 12] =
      [T_Print, T_NumberLiteral, T_NumberLiteral, T_NumberLiteral, T_Semicolon,
       T_Var, T_Equal, T_NumberLiteral, T_Semicolon,
       T_Print, T_NumberLiteral, T_Semicolon, T_EndOfFile]"
    by (simp add: src_two_skipped_def token_defs)
  have small: "20 + length ?os < 24"
    by simp
  note inst = parse_recovers
    [of 0 "Parser_new []" "mk_token T_EndOfFile [] 1" "[]" src_two_errors 172 1
        "src_two_errors ! 0" "src_two_errors ! 1" "src_two_errors ! 2" "src_two_errors ! 3"
        "src_two_errors ! 4" "src_two_errors ! 5" "src_two_errors ! 6" "src_two_errors ! 7" 0
        20 src_two_skipped ?os 24
        "src_two_skipped ! 0" "src_two_skipped ! 1" "src_two_skipped ! 2" "src_two_skipped ! 3"
        "src_two_skipped ! 4" "src_two_skipped ! 5" "src_two_skipped ! 6" "src_two_skipped ! 7"
        "src_two_skipped ! 8" "src_two_skipped ! 9" "src_two_skipped ! 10"
        "src_two_skipped ! 11" "src_two_skipped ! 12"]
  from inst hyps have "\<exists>statements p'. parse 172 (Parser_new src_two_errors) = (Inr statements, p')
        \<and> parse (172 + 1) (Parser_new src_two_errors) = (Inr statements, p')
        \<and> count_list statements None \<le> length (reported p')"
    by blast
  moreover from inst types
  have "parse (0 + 20) (Parser_new [src_two_errors ! 0, src_two_errors ! 1, src_two_errors ! 2,
        src_two_errors ! 3, src_two_errors ! 4, src_two_errors ! 5, src_two_errors ! 6,
        src_two_errors ! 7]) =
      (Inr [None, None, Some (Print (Literal (literal (src_two_errors ! 5))))],
       \<lparr>tokens = [src_two_errors ! 0, src_two_errors ! 1, src_two_errors ! 2,
        src_two_errors ! 3, src_two_errors ! 4, src_two_errors ! 5, src_two_errors ! 6,
        src_two_errors ! 7], current = 7,
          reported = [(line (src_two_errors ! 1), ''Expect expression''),
                      (line (src_two_errors ! 3), ''Expect expression'')]\<rparr>)"
    by blast
  then have "parse 20 (Parser_new src_two_errors) =
      (Inr [None, None, Some (Print (Literal (Number d1)))],
       \<lparr>tokens = src_two_errors, current = 7,
          reported = [(1, ''Expect expression''), (2, ''Expect expression'')]\<rparr>)"
    by (simp add: src_two_errors_def token_defs)
  moreover have "map type src_two_errors =
      [T_Print, T_Semicolon, T_Print, T_Semicolon, T_Print, T_NumberLiteral, T_Semicolon,
       T_EndOfFile]"
    by (simp add: src_two_errors_def token_defs)
  moreover from inst met small
  have "parse 24 (Parser_new src_two_skipped) =
      (Inr (nodes ?os), \<lparr>tokens = src_two_skipped, current = resumes 0 ?os, reported = reports ?os\<rparr>)"
    by blast
  then have "parse 24 (Parser_new src_two_skipped) =
      (Inr [None, None, Some (Print (Literal (Number d3)))],
       \<lparr>tokens = src_two_skipped, current = 12,
          reported = [(1, ''Expect '' @ quoted '';'' @ '' after value''),
                      (2, ''Expect variable name'')]\<rparr>)"
    by (simp add: token_defs)
  moreover from inst types3
  have "parse (0 + 20) (Parser_new [src_two_skipped ! 0, src_two_skipped ! 1, src_two_skipped ! 2,
        src_two_skipped ! 3, src_two_skipped ! 4, src_two_skipped ! 5, src_two_skipped ! 6,
        src_two_skipped ! 7, src_two_skipped ! 8, src_two_skipped ! 9, src_two_skipped ! 10,
        src_two_skipped ! 11, src_two_skipped ! 12]) =
      (Inr [None, None, Some (Print (Literal (literal (src_two_skipped ! 10))))],
       \<lparr>tokens = [src_two_skipped ! 0, src_two_skipped ! 1, src_two_skipped ! 2,
        src_two_skipped ! 3, src_two_skipped ! 4, src_two_skipped ! 5, src_two_skipped ! 6,
        src_two_skipped ! 7, src_two_skipped ! 8, src_two_skipped ! 9, src_two_skipped ! 10,
        src_two_skipped ! 11, src_two_skipped ! 12], current = 12,
          reported = [(line (src_two_skipped ! 2), ''Expect '' @ quoted '';'' @ '' after value''),
                      (line (src_two_skipped ! 6), ''Expect variable name'')]\<rparr>)"
    by blast
  then have "parse 20 (Parser_new src_two_skipped) =
      (Inr [None, None, Some (Print (Literal (Number d3)))],
       \<lparr>tokens = src_two_skipped, current = 12,
          reported = [(1, ''Expect '' @ quoted '';'' @ '' after value''),
                      (2, ''Expect variable name'')]\<rparr>)"
    by (simp add: src_two_skipped_def token_defs)
  ultimately show ?thesis using hyps met types2 by blast
qed

text \<open>
  C1, as the claim states it, fails for the tokens of \<^verbatim>\<open>1 = 2 3; print ; print 1;\<close>, two
  malformed statements separated by \<^verbatim>\<open>;\<close> and a well-formed one: three errors are
  reported, since the first statement reports its invalid assignment target before it throws
  at the \<^verbatim>\<open>3\<close>, and the list returned has three entries, of which the first two are null.
\<close>

theorem parse_recovers_counterexample:
  "parse 20 (Parser_new src_two_errors_three_reports) =
     (Inr [None, None, Some (Print (Literal (Number d1)))],
      \<lparr>tokens = src_two_errors_three_reports, current = 10,
         reported = [(1, ''Invalid assignment target''),
                     (1, ''Exprect '' @ quoted '';'' @ '' after expession''),
                     (2, ''Expect expression'')]\<rparr>)
   \<and> length (reported (snd (parse 20 (Parser_new src_two_errors_three_reports)))) = 3"
  by (simp add: src_two_errors_three_reports_def token_defs eval_nat_numeral action_defs)

text \<open>
  C10. On a token sequence \<open>ts\<close> that ends with the end-of-input token, whatever the budget,
  \<open>parse\<close> never ends with the out-of-range error of \<^verbatim>\<open>peek\<close> or \<^verbatim>\<open>previous\<close>, and it
  leaves the cursor below \<open>length ts\<close>; with a budget of \<open>20 * length ts + 12\<close> or more it
  returns, with the cursor on an end-of-input token. The cursor only moves in \<^verbatim>\<open>advance\<close>,
  forwards, and \<^verbatim>\<open>advance\<close> leaves a state alone whose cursor is on the end-of-input
  token. Started with the cursor inside \<open>ts\<close>, \<open>expression\<close> and \<open>statement\<close> do not end out
  of range either and leave the cursor where it was or further, below \<open>length ts\<close>.
\<close>

theorem cursor_stays_within_tokens:
  "ts \<noteq> [] \<and> type (last ts) = T_EndOfFile \<longrightarrow>
     fst (parse n (Parser_new ts)) \<noteq> Inl OutOfRange
     \<and> current (snd (parse n (Parser_new ts))) < length ts
     \<and> (20 * length ts + 12 \<le> n \<longrightarrow>
          (\<exists>statements. fst (parse n (Parser_new ts)) = Inr statements)
          \<and> type (ts ! current (snd (parse n (Parser_new ts)))) = T_EndOfFile)
     \<and> (tokens p = ts \<and> current p < length ts \<longrightarrow>
          (type (ts ! current p) = T_EndOfFile \<longrightarrow> snd (advance p) = p)
          \<and> fst (expression n p) \<noteq> Inl OutOfRange
          \<and> current p \<le> current (snd (expression n p))
          \<and> current (snd (expression n p)) < length ts
          \<and> fst (statement n p) \<noteq> Inl OutOfRange
          \<and> current p \<le> current (snd (statement n p))
          \<and> current (snd (statement n p)) < length ts)"
proof (intro impI)
  assume "ts \<noteq> [] \<and> type (last ts) = T_EndOfFile"
  then have t: "terminated ts" by (simp add: terminated_def)
  have run: "fst (parse n (Parser_new ts)) \<noteq> Inl OutOfRange
      \<and> current (snd (parse n (Parser_new ts))) < length ts"
    using parse_within [OF t, of n "fst (parse n (Parser_new ts))" "snd (parse n (Parser_new ts))"]
    by simp
  have returns: "(\<exists>statements. fst (parse n (Parser_new ts)) = Inr statements)
      \<and> type (ts ! current (snd (parse n (Parser_new ts)))) = T_EndOfFile"
    if "20 * length ts + 12 \<le> n"
    using parse_returns [OF t that] by auto
  have inside: "(type (ts ! current p) = T_EndOfFile \<longrightarrow> snd (advance p) = p)
      \<and> fst (expression n p) \<noteq> Inl OutOfRange
      \<and> current p \<le> current (snd (expression n p))
      \<and> current (snd (expression n p)) < length ts
      \<and> fst (statement n p) \<noteq> Inl OutOfRange
      \<and> current p \<le> current (snd (statement n p))
      \<and> current (snd (statement n p)) < length ts"
    if "tokens p = ts \<and> current p < length ts"
  proof -
    from that have p: "within ts (current p) p" by (simp add: within_def)
    from stmt_specs_all [OF t, of n] have s: "spec ts (statement n) 10 n"
      by (simp add: stmt_specs_def)
    from spec_in_bounds [OF expression_spec [OF t] p, of n] spec_in_bounds [OF s p]
      advance_at_end [OF p]
    show ?thesis by (simp add: within_def)
  qed
  from run returns inside show "fst (parse n (Parser_new ts)) \<noteq> Inl OutOfRange
     \<and> current (snd (parse n (Parser_new ts))) < length ts
     \<and> (20 * length ts + 12 \<le> n \<longrightarrow>
          (\<exists>statements. fst (parse n (Parser_new ts)) = Inr statements)
          \<and> type (ts ! current (snd (parse n (Parser_new ts)))) = T_EndOfFile)
     \<and> (tokens p = ts \<and> current p < length ts \<longrightarrow>
          (type (ts ! current p) = T_EndOfFile \<longrightarrow> snd (advance p) = p)
          \<and> fst (expression n p) \<noteq> Inl OutOfRange
          \<and> current p \<le> current (snd (expression n p))
          \<and> current (snd (expression n p)) < length ts
          \<and> fst (statement n p) \<noteq> Inl OutOfRange
          \<and> current p \<le> current (snd (statement n p))
          \<and> current (snd (statement n p)) < length ts)"
    by blast
qed

theorem cursor_stays_within_tokens_witness:
  "src_two_errors \<noteq> [] \<and> type (last src_two_errors) = T_EndOfFile
   \<and> 20 * length src_two_errors + 12 \<le> 172
   \<and> tokens \<lparr>tokens = src_two_errors, current = 7, reported = []\<rparr> = src_two_errors
   \<and> current \<lparr>tokens = src_two_errors, current = 7, reported = []\<rparr> < length src_two_errors
   \<and> type (src_two_errors ! 7) = T_EndOfFile
   \<and> fst (parse 172 (Parser_new src_two_errors)) \<noteq> Inl OutOfRange
   \<and> current (snd (parse 172 (Parser_new src_two_errors))) < 8
   \<and> (\<exists>statements. fst (parse 172 (Parser_new src_two_errors)) = Inr statements)
   \<and> snd (advance \<lparr>tokens = src_two_errors, current = 7, reported = []\<rparr>) =
       \<lparr>tokens = src_two_errors, current = 7, reported = []\<rparr>
   \<and> fst (expression 172 \<lparr>tokens = src_two_errors, current = 7, reported = []\<rparr>)
       \<noteq> Inl OutOfRange"
  using cursor_stays_within_tokens
    [of src_two_errors 172 "\<lparr>tokens = src_two_errors, current = 7, reported = []\<rparr>"]
  by (simp add: src_two_errors_def token_defs)

end
